theory Spec2Isabelle
  imports Complex_Main "HOL-Library.AList" "HOL-Library.List_Lexorder" "HOL-Library.Multiset"
begin

section \<open>JavaScript strings\<close>

text \<open>
  A JavaScript string is a sequence of UTF-16 code units. The bank parser of
  \<^verbatim>\<open>src/App.jsx\<close> tests for code units outside Latin-1 (the
  ideographic comma U+3001, the Unicode white space of \<^verbatim>\<open>\s\<close>), so a
  string is modelled as the list of its code units, each a natural number. \<open>ascii\<close>
  embeds an ASCII literal. The order on strings that \<^verbatim>\<open>Array.prototype.sort\<close>
  uses by default (code unit by code unit, a proper prefix first) is the lexicographic
  order on lists.
\<close>

type_synonym jsstring = "nat list"

definition ascii :: "string \<Rightarrow> jsstring" where
  "ascii s = map of_char s"

text \<open>The character classes of the three regular expressions.\<close>

definition isDigit :: "nat \<Rightarrow> bool" where
  "isDigit c = (48 \<le> c \<and> c \<le> 57)"

text \<open>\<^verbatim>\<open>[.,\u3001]\<close>\<close>

definition isSeparator :: "nat \<Rightarrow> bool" where
  "isSeparator c = (c = 46 \<or> c = 44 \<or> c = 12289)"

text \<open>Line terminators: LF, CR, U+2028, U+2029; the dot of a regular expression skips them.\<close>

definition isLineTerminator :: "nat \<Rightarrow> bool" where
  "isLineTerminator c = (c = 10 \<or> c = 13 \<or> c = 8232 \<or> c = 8233)"

text \<open>
  \<^verbatim>\<open>\s\<close>, which is also what \<^verbatim>\<open>String.prototype.trim\<close> strips:
  TAB, VT, FF, SP, NBSP, U+1680, U+2000 to U+200A, U+202F, U+205F, U+3000, U+FEFF and the
  line terminators.
\<close>

definition isWhiteSpace :: "nat \<Rightarrow> bool" where
  "isWhiteSpace c =
     (c = 9 \<or> c = 11 \<or> c = 12 \<or> c = 32 \<or> c = 160 \<or> c = 5760 \<or> (8192 \<le> c \<and> c \<le> 8202) \<or>
      c = 8239 \<or> c = 8287 \<or> c = 12288 \<or> c = 65279 \<or> isLineTerminator c)"

text \<open>\<^verbatim>\<open>[A-F]\<close> under the flag \<^verbatim>\<open>i\<close>: the ASCII letters A to F in either case.\<close>

definition isLetterAF :: "nat \<Rightarrow> bool" where
  "isLetterAF c = ((65 \<le> c \<and> c \<le> 70) \<or> (97 \<le> c \<and> c \<le> 102))"

definition isUpperAF :: "nat \<Rightarrow> bool" where
  "isUpperAF c = (65 \<le> c \<and> c \<le> 70)"

text \<open>
  \<^verbatim>\<open>toUpperCase\<close>, on the ASCII range. The program applies it only to text that
  matched \<^verbatim>\<open>[A-F]\<close> case-insensitively.
\<close>

definition toUpperCase :: "jsstring \<Rightarrow> jsstring" where
  "toUpperCase s = map (\<lambda>c. if 97 \<le> c \<and> c \<le> 122 then c - 32 else c) s"

definition trim :: "jsstring \<Rightarrow> jsstring" where
  "trim s = rev (dropWhile isWhiteSpace (rev (dropWhile isWhiteSpace s)))"

text \<open>\<^verbatim>\<open>(text || "").replace(/\u00a0/g, " ").trim()\<close>\<close>

definition normalizeText :: "jsstring \<Rightarrow> jsstring" where
  "normalizeText t = trim (map (\<lambda>c. if c = 160 then 32 else c) t)"

text \<open>\<^verbatim>\<open>s.split("")\<close> and \<^verbatim>\<open>list.join("")\<close>\<close>

definition split_chars :: "jsstring \<Rightarrow> jsstring list" where
  "split_chars s = map (\<lambda>c. [c]) s"

definition join :: "jsstring list \<Rightarrow> jsstring" where
  "join ss = concat ss"

text \<open>\<^verbatim>\<open>[...list].sort()\<close>\<close>

definition sortLetters :: "jsstring list \<Rightarrow> jsstring list" where
  "sortLetters ls = sort ls"

text \<open>
  \<^verbatim>\<open>Number(digits)\<close> on a string of decimal digits. The value is exact below
  \<open>2 ^ 53\<close>; the rounding of longer digit strings to a double is not modelled.
\<close>

definition Number_of_digits :: "jsstring \<Rightarrow> int" where
  "Number_of_digits ds = foldl (\<lambda>n c. 10 * n + (int c - 48)) 0 ds"

subsection \<open>The three patterns\<close>

text \<open>
  \<^verbatim>\<open>/^(\d+)[.,\u3001]\s*(.*)$/\<close>. The greedy \<^verbatim>\<open>\d+\<close> takes the longest run of
  digits, since giving a digit back leaves a digit where the separator must stand.
  \<^verbatim>\<open>\s*\<close> takes the longest run of white space; the rest must reach the end of
  the string without a line terminator, and giving white space back to \<^verbatim>\<open>.*\<close> only
  lengthens what the dot must cross. So the match, when there is one, is unique; the
  result is the pair of captures.
\<close>

definition rest_RE :: "jsstring \<Rightarrow> jsstring option" where
  "rest_RE s = (let r = dropWhile isWhiteSpace s
                in if list_ex isLineTerminator r then None else Some r)"

definition QUESTION_RE :: "jsstring \<Rightarrow> (jsstring \<times> jsstring) option" where
  "QUESTION_RE s =
     (let ds = takeWhile isDigit s in
      if ds = [] then None
      else (case dropWhile isDigit s of
              [] \<Rightarrow> None
            | c # r \<Rightarrow> if isSeparator c
                       then (case rest_RE r of None \<Rightarrow> None | Some t \<Rightarrow> Some (ds, t))
                       else None))"

text \<open>\<^verbatim>\<open>/^([A-F])[.,\u3001]\s*(.*)$/i\<close>\<close>

definition OPTION_RE :: "jsstring \<Rightarrow> (jsstring \<times> jsstring) option" where
  "OPTION_RE s =
     (case s of
        l # c # r \<Rightarrow> if isLetterAF l \<and> isSeparator c
                     then (case rest_RE r of None \<Rightarrow> None | Some t \<Rightarrow> Some ([l], t))
                     else None
      | _ \<Rightarrow> None)"

text \<open>
  \<^verbatim>\<open>/^Answer[:\s]+([A-F]+)$/i\<close>. Without the flag \<^verbatim>\<open>u\<close> a character
  matches a pattern letter case-insensitively when both have the same upper case, and a
  character beyond ASCII never folds to an ASCII one: each letter of \<^verbatim>\<open>Answer\<close>
  matches itself in upper or lower case. The classes \<^verbatim>\<open>[:\s]\<close> and
  \<^verbatim>\<open>[A-F]\<close> are disjoint, so the split between them is unique.
\<close>

definition matches_ci :: "jsstring \<Rightarrow> jsstring \<Rightarrow> bool" where
  "matches_ci pat s = (length s = length pat \<and> toUpperCase s = toUpperCase pat)"

definition ANSWER_RE :: "jsstring \<Rightarrow> jsstring option" where
  "ANSWER_RE s =
     (if matches_ci (ascii ''Answer'') (take 6 s)
      then (let r = drop 6 s;
                seps = takeWhile (\<lambda>c. c = 58 \<or> isWhiteSpace c) r;
                letters = dropWhile (\<lambda>c. c = 58 \<or> isWhiteSpace c) r
            in if seps \<noteq> [] \<and> letters \<noteq> [] \<and> list_all isLetterAF letters
               then Some letters else None)
      else None)"

section \<open>The bank parser\<close>

text \<open>
  A block of the converted document: its text and the sources of its images. The walk
  over the DOM that produces the blocks (\<^verbatim>\<open>extractBlocksFromHtml\<close>) is the
  browser's; the parser is modelled from the block sequence on.
\<close>

record block =
  btext :: jsstring
  bimages :: "jsstring list"

text \<open>
  An object with string keys is an association list in insertion order; assigning to a
  key that is present keeps its position (\<open>AList.update\<close>). The keys of this program are
  never array indices, which JavaScript would order first.
\<close>

type_synonym 'v jsobject = "(jsstring \<times> 'v) list"

record question =
  number :: int
  qtext :: jsstring
  options :: "jsstring jsobject"
  answer :: jsstring
  images :: "jsstring list"

text \<open>The accumulators of \<^verbatim>\<open>parseQuestionsFromHtml\<close>; \<open>None\<close> is \<^verbatim>\<open>null\<close>.\<close>

record parser_state =
  questions_acc :: "question list"
  currentText :: jsstring
  currentOptions :: "jsstring jsobject"
  currentImages :: "jsstring list"
  currentNumber :: "int option"
  currentAnswer :: "jsstring option"

fun appendUniqueImages :: "jsstring list \<Rightarrow> jsstring list \<Rightarrow> jsstring list" where
  "appendUniqueImages target [] = target"
| "appendUniqueImages target (src # srcs) =
     appendUniqueImages (if src \<noteq> [] \<and> src \<notin> set target then target @ [src] else target) srcs"

definition flushCurrentQuestion :: "parser_state \<Rightarrow> parser_state" where
  "flushCurrentQuestion st =
     (case (currentNumber st, currentAnswer st) of
        (Some n, Some a) \<Rightarrow>
          if length (currentOptions st) > 0 \<and> a \<noteq> []
          then st\<lparr>questions_acc := questions_acc st @
                 [\<lparr>number = n, qtext = trim (currentText st), options = currentOptions st,
                   answer = join (sortLetters (split_chars (toUpperCase a))),
                   images = currentImages st\<rparr>]\<rparr>
          else st
      | _ \<Rightarrow> st)"

text \<open>One turn of the loop over the blocks.\<close>

definition parse_block :: "parser_state \<Rightarrow> block \<Rightarrow> parser_state" where
  "parse_block st b =
     (let t = normalizeText (btext b); imgs = bimages b in
      case QUESTION_RE t of
        Some (ds, rest) \<Rightarrow>
          (flushCurrentQuestion st)
            \<lparr>currentText := rest, currentOptions := [],
             currentImages := appendUniqueImages [] imgs,
             currentNumber := Some (Number_of_digits ds), currentAnswer := None\<rparr>
      | None \<Rightarrow>
          (case OPTION_RE t of
             Some (l, rest) \<Rightarrow>
               st\<lparr>currentOptions := AList.update (toUpperCase l) rest (currentOptions st),
                  currentImages := appendUniqueImages (currentImages st) imgs\<rparr>
           | None \<Rightarrow>
               (case ANSWER_RE t of
                  Some letters \<Rightarrow> st\<lparr>currentAnswer := Some (toUpperCase letters)\<rparr>
                | None \<Rightarrow>
                    if currentNumber st \<noteq> None
                    then st\<lparr>currentImages := appendUniqueImages (currentImages st) imgs,
                            currentText :=
                              (if t \<noteq> [] \<and> length (currentOptions st) = 0
                               then (if currentText st \<noteq> [] then currentText st @ [10] @ t else t)
                               else currentText st)\<rparr>
                    else st)))"

definition initial_parser_state :: parser_state where
  "initial_parser_state =
     \<lparr>questions_acc = [], currentText = [], currentOptions = [], currentImages = [],
      currentNumber = None, currentAnswer = None\<rparr>"

definition parseQuestionsFromHtml :: "block list \<Rightarrow> question list" where
  "parseQuestionsFromHtml blocks =
     questions_acc (flushCurrentQuestion (foldl parse_block initial_parser_state blocks))"

section \<open>Shuffling and preparation\<close>

text \<open>
  \<^verbatim>\<open>Math.random()\<close> is a parameter: the random source gives the result of the
  \<open>k\<close>-th call from now on, a number that the browser promises to lie in \<open>[0, 1)\<close>
  (\<open>unit_interval\<close>). The double is read as a real number; for \<open>r < 1\<close> the product
  \<open>r * (i + 1)\<close> stays below \<open>i + 1\<close>, so the index drawn is at most \<open>i\<close>.
\<close>

type_synonym random_source = "nat \<Rightarrow> real"

definition unit_interval :: "random_source \<Rightarrow> bool" where
  "unit_interval rnd = (\<forall>k. 0 \<le> rnd k \<and> rnd k < 1)"

definition advance :: "nat \<Rightarrow> random_source \<Rightarrow> random_source" where
  "advance n rnd = (\<lambda>k. rnd (n + k))"

text \<open>\<^verbatim>\<open>Math.floor(Math.random() * (i + 1))\<close>\<close>

definition random_index :: "real \<Rightarrow> nat \<Rightarrow> nat" where
  "random_index r i = nat \<lfloor>r * real (i + 1)\<rfloor>"

text \<open>
  The loop of \<^verbatim>\<open>shuffleArray\<close>, from \<open>i\<close> down to 1. The destructuring swap reads
  both cells before it writes them. Both indices are inside the array when the draw is in
  \<open>[0, 1)\<close>.
\<close>

fun shuffle_loop :: "random_source \<Rightarrow> nat \<Rightarrow> 'a list \<Rightarrow> 'a list" where
  "shuffle_loop rnd 0 copy = copy"
| "shuffle_loop rnd (Suc n) copy =
     (let i = Suc n; j = random_index (rnd 0) i
      in shuffle_loop (advance 1 rnd) n (copy[i := copy ! j, j := copy ! i]))"

definition shuffleArray :: "random_source \<Rightarrow> 'a list \<Rightarrow> 'a list" where
  "shuffleArray rnd array = shuffle_loop rnd (length array - 1) array"

definition LETTERS :: "jsstring list" where
  "LETTERS = [ascii ''A'', ascii ''B'', ascii ''C'', ascii ''D'', ascii ''E'', ascii ''F'']"

record preparedQuestion = question +
  isMultipleChoice :: bool
  shuffledOptions :: "jsstring jsobject"
  optionMapping :: "jsstring jsobject"
  reverseMapping :: "jsstring option jsobject"
  shuffledAnswer :: jsstring

text \<open>
  Reading an array past its end gives \<^verbatim>\<open>undefined\<close> (\<open>None\<close>), and
  \<^verbatim>\<open>undefined\<close> used as a property key is the string \<^verbatim>\<open>"undefined"\<close>.
\<close>

definition at_index :: "'a list \<Rightarrow> nat \<Rightarrow> 'a option" where
  "at_index xs i = (if i < length xs then Some (xs ! i) else None)"

definition property_key :: "jsstring option \<Rightarrow> jsstring" where
  "property_key v = (case v of None \<Rightarrow> ascii ''undefined'' | Some k \<Rightarrow> k)"

text \<open>
  The body of \<^verbatim>\<open>shuffledItems.forEach\<close> in \<^verbatim>\<open>prepareQuestion\<close>, on the
  three objects \<^verbatim>\<open>shuffledOptions\<close>, \<^verbatim>\<open>optionMapping\<close>,
  \<^verbatim>\<open>reverseMapping\<close>.
\<close>

fun assign_letters ::
  "jsstring list \<Rightarrow> nat \<Rightarrow> (jsstring \<times> jsstring) list \<Rightarrow>
   jsstring jsobject \<times> jsstring jsobject \<times> jsstring option jsobject \<Rightarrow>
   jsstring jsobject \<times> jsstring jsobject \<times> jsstring option jsobject" where
  "assign_letters newLetters index [] acc = acc"
| "assign_letters newLetters index ((originalLetter, optionText) # items) (so, om, rm) =
     (let newLetter = at_index newLetters index
      in assign_letters newLetters (Suc index) items
           (AList.update (property_key newLetter) optionText so,
            AList.update (property_key newLetter) originalLetter om,
            AList.update originalLetter newLetter rm))"

text \<open>
  \<^verbatim>\<open>obj[key]\<close> on an object whose values may be \<^verbatim>\<open>undefined\<close>, and
  \<^verbatim>\<open>.filter(Boolean)\<close> on a list of strings and \<^verbatim>\<open>undefined\<close>: the
  empty string is falsy too.
\<close>

definition get_property :: "'v option jsobject \<Rightarrow> jsstring \<Rightarrow> 'v option" where
  "get_property obj k = (case map_of obj k of None \<Rightarrow> None | Some v \<Rightarrow> v)"

fun filter_Boolean :: "jsstring option list \<Rightarrow> jsstring list" where
  "filter_Boolean [] = []"
| "filter_Boolean (None # vs) = filter_Boolean vs"
| "filter_Boolean (Some v # vs) = (if v = [] then filter_Boolean vs else v # filter_Boolean vs)"

definition prepareQuestion :: "random_source \<Rightarrow> question \<Rightarrow> preparedQuestion" where
  "prepareQuestion rnd q =
     (let optionItems = options q;
          shuffledItems = shuffleArray rnd optionItems;
          newLetters = take (length shuffledItems) LETTERS;
          (so, om, rm) = assign_letters newLetters 0 shuffledItems ([], [], []);
          sa = join (sortLetters
                 (filter_Boolean (map (\<lambda>letter. get_property rm letter) (split_chars (answer q)))))
      in \<lparr>number = number q, qtext = qtext q, options = options q, answer = answer q,
          images = images q,
          isMultipleChoice = (length (answer q) > 1),
          shuffledOptions = so, optionMapping = om, reverseMapping = rm,
          shuffledAnswer = sa\<rparr>)"

text \<open>
  \<^verbatim>\<open>selected.map(prepareQuestion)\<close>: the call for a question with \<open>n\<close> options
  makes \<open>n - 1\<close> draws, and the next call goes on from there.
\<close>

fun map_prepareQuestion :: "random_source \<Rightarrow> question list \<Rightarrow> preparedQuestion list" where
  "map_prepareQuestion rnd [] = []"
| "map_prepareQuestion rnd (q # qs) =
     prepareQuestion rnd q # map_prepareQuestion (advance (length (options q) - 1) rnd) qs"

section \<open>Selection\<close>

text \<open>
  The settings \<^verbatim>\<open>numQuestions\<close> and \<^verbatim>\<open>startQuestion\<close> are JavaScript numbers. The
  settings dialog stores \<^verbatim>\<open>Number(value)\<close> of what the user typed without rounding it,
  so a setting can be a fraction such as 1.5; it is modelled as a real number. (The dialog
  and \<^verbatim>\<open>loadDocxFile\<close> never store \<^verbatim>\<open>NaN\<close> or an infinity.)
\<close>

text \<open>\<^verbatim>\<open>Math.min(max, Math.max(min, num))\<close>\<close>

definition clamp :: "real \<Rightarrow> real \<Rightarrow> real \<Rightarrow> real" where
  "clamp num mn mx = min mx (max mn num)"

text \<open>
  \<^verbatim>\<open>array.slice(start, end)\<close>: each argument is first truncated toward zero to an
  integer, and a negative index counts from the end.
\<close>

definition trunc :: "real \<Rightarrow> int" where
  "trunc k = (if 0 \<le> k then \<lfloor>k\<rfloor> else \<lceil>k\<rceil>)"

definition slice_index :: "nat \<Rightarrow> real \<Rightarrow> nat" where
  "slice_index len k =
     (if trunc k < 0 then nat (max (int len + trunc k) 0) else min (nat (trunc k)) len)"

definition slice :: "'a list \<Rightarrow> real \<Rightarrow> real \<Rightarrow> 'a list" where
  "slice xs start end = take (slice_index (length xs) end - slice_index (length xs) start)
                          (drop (slice_index (length xs) start) xs)"

definition sampleQuestions :: "random_source \<Rightarrow> question list \<Rightarrow> real \<Rightarrow> question list" where
  "sampleQuestions rnd qs cnt = slice (shuffleArray rnd qs) 0 cnt"

text \<open>
  The search for the start index, as \<^verbatim>\<open>startQuiz\<close> and
  \<^verbatim>\<open>computeSequentialMaxCount\<close> both write it: the first index whose number
  reaches the start number, and 0, the initial value, when the loop runs to its end.
\<close>

function find_startIdx :: "question list \<Rightarrow> real \<Rightarrow> nat \<Rightarrow> nat" where
  "find_startIdx sortedQuestions startNumber i =
     (if i < length sortedQuestions
      then (if real_of_int (number (sortedQuestions ! i)) \<ge> startNumber then i
            else find_startIdx sortedQuestions startNumber (i + 1))
      else 0)"
  by pat_completeness auto
termination
  by (relation "measure (\<lambda>(qs, s, i). length qs - i)") auto

declare find_startIdx.simps [simp del]

definition computeSequentialMaxCount :: "question list \<Rightarrow> real \<Rightarrow> real" where
  "computeSequentialMaxCount sortedQuestions startNumber =
     (if length sortedQuestions = 0 then 1
      else max 1 (real (length sortedQuestions) - real (find_startIdx sortedQuestions startNumber 0)))"

datatype mode = Random | Sequential

record settings =
  mode :: mode
  numQuestions :: real
  startQuestion :: real

text \<open>\<^verbatim>\<open>Number(x) || 1\<close> on a number: 0 is falsy.\<close>

definition or_one :: "real \<Rightarrow> real" where
  "or_one x = (if x = 0 then 1 else x)"

text \<open>
  \<^verbatim>\<open>[...questions].sort((a, b) => a.number - b.number)\<close>, a stable sort by number,
  and the largest number of the bank (0 for an empty bank).
\<close>

definition sortedQuestions :: "question list \<Rightarrow> question list" where
  "sortedQuestions qs = sort_key number qs"

definition maxQuestionNumber :: "question list \<Rightarrow> int" where
  "maxQuestionNumber qs =
     (if length (sortedQuestions qs) > 0 then number (last (sortedQuestions qs)) else 0)"

text \<open>The local \<^verbatim>\<open>startQuestion\<close> of \<^verbatim>\<open>startQuiz\<close>.\<close>

definition clampedStartQuestion :: "settings \<Rightarrow> question list \<Rightarrow> real" where
  "clampedStartQuestion st qs =
     clamp (or_one (startQuestion st)) 1 (max 1 (real_of_int (maxQuestionNumber qs)))"

text \<open>The two branches of \<^verbatim>\<open>startQuiz\<close> that fill \<^verbatim>\<open>selectedQuestions\<close>.\<close>

definition selectSequential :: "settings \<Rightarrow> question list \<Rightarrow> question list" where
  "selectSequential st qs =
     (let sorted = sortedQuestions qs;
          startIdx = find_startIdx sorted (clampedStartQuestion st qs) 0;
          maxCount = max 1 (real (length sorted) - real startIdx);
          cnt = clamp (or_one (numQuestions st)) 1 maxCount
      in slice sorted (real startIdx) (real startIdx + cnt))"

definition selectRandom :: "random_source \<Rightarrow> settings \<Rightarrow> question list \<Rightarrow> question list" where
  "selectRandom rnd st qs =
     (let cnt = clamp (or_one (numQuestions st)) 1 (real (length qs))
      in sampleQuestions rnd qs cnt)"

section \<open>The quiz run\<close>

record answerRecord =
  selected :: "jsstring list"
  isCorrect :: bool
  userAnswerShuffled :: jsstring
  userAnswerOriginal :: jsstring

record wrongAnswerEntry =
  original_number :: int
  question_text :: jsstring
  entry_options :: "jsstring jsobject"
  correct_answer :: jsstring
  user_answer :: jsstring
  is_multiple_choice :: bool
  timestamp :: jsstring

text \<open>
  The warning line of the page: empty, the request to select an answer first, or the
  message that a multiple-choice question needs \<open>n\<close> answers where \<open>m\<close> were selected.
\<close>

datatype warning = NoWarning | SelectFirst | WrongCount nat nat

text \<open>
  The state of the component \<^verbatim>\<open>App\<close> that a run reads and writes. The objects
  \<^verbatim>\<open>answersState\<close> and \<^verbatim>\<open>draftSelections\<close> are keyed by question index.
  \<open>autoNextTimer\<close> is the pending timeout of \<^verbatim>\<open>submitAnswer\<close>, with the length
  of the run that its callback captured. Each handler is modelled as running to its end on
  the current state.
\<close>

record app_state =
  questions :: "question list"
  quizQuestions :: "preparedQuestion list"
  currentIndex :: nat
  score :: nat
  answersState :: "(nat \<times> answerRecord) list"
  draftSelections :: "(nat \<times> jsstring list) list"
  warning :: warning
  wrongAnswers :: "wrongAnswerEntry list"
  quizSettings :: settings
  showSettings :: bool
  showFinalModal :: bool
  autoNextTimer :: "nat option"

definition currentQuestion :: "app_state \<Rightarrow> preparedQuestion option" where
  "currentQuestion s = at_index (quizQuestions s) (currentIndex s)"

definition currentResult :: "app_state \<Rightarrow> answerRecord option" where
  "currentResult s = map_of (answersState s) (currentIndex s)"

definition resetRunState :: "app_state \<Rightarrow> app_state" where
  "resetRunState s =
     s\<lparr>currentIndex := 0, score := 0, answersState := [], draftSelections := [],
       warning := NoWarning, showFinalModal := False\<rparr>"

text \<open>\<^verbatim>\<open>prev.findIndex(pred)\<close>: the first index that satisfies, or \<open>-1\<close>.\<close>

fun findIndex :: "('a \<Rightarrow> bool) \<Rightarrow> 'a list \<Rightarrow> int" where
  "findIndex P [] = -1"
| "findIndex P (x # xs) =
     (if P x then 0 else (let r = findIndex P xs in if r \<ge> 0 then r + 1 else -1))"

text \<open>The update function that \<^verbatim>\<open>upsertWrongAnswer\<close> passes to \<^verbatim>\<open>setWrongAnswers\<close>.\<close>

definition upsert :: "wrongAnswerEntry \<Rightarrow> wrongAnswerEntry list \<Rightarrow> wrongAnswerEntry list" where
  "upsert record prev =
     (let index = findIndex (\<lambda>item. original_number item = original_number record) prev
      in if index \<ge> 0 then prev[nat index := record] else prev @ [record])"

text \<open>\<open>now\<close> is \<^verbatim>\<open>new Date().toISOString()\<close>.\<close>

definition upsertWrongAnswer ::
  "jsstring \<Rightarrow> preparedQuestion \<Rightarrow> jsstring \<Rightarrow> app_state \<Rightarrow> app_state" where
  "upsertWrongAnswer now q ua s =
     s\<lparr>wrongAnswers :=
         upsert \<lparr>original_number = number q, question_text = qtext q,
                 entry_options = options q, correct_answer = answer q,
                 user_answer = ua,
                 is_multiple_choice = isMultipleChoice q, timestamp = now\<rparr>
           (wrongAnswers s)\<rparr>"

text \<open>
  \<^verbatim>\<open>Array.from(new Set(xs))\<close>: the elements of \<open>xs\<close> once each, in the order of
  their first occurrence.
\<close>

definition from_Set :: "'a list \<Rightarrow> 'a list" where
  "from_Set xs = rev (remdups (rev xs))"

definition changeOption :: "jsstring \<Rightarrow> bool \<Rightarrow> app_state \<Rightarrow> app_state" where
  "changeOption letter checked s =
     (case currentQuestion s of
        None \<Rightarrow> s
      | Some q \<Rightarrow>
          if currentResult s \<noteq> None then s
          else
            (let existing = (case map_of (draftSelections s) (currentIndex s) of
                               None \<Rightarrow> [] | Some d \<Rightarrow> d);
                 next = (if isMultipleChoice q
                         then (if checked then sortLetters (from_Set (existing @ [letter]))
                               else filter (\<lambda>item. item \<noteq> letter) existing)
                         else (if checked then [letter] else []))
             in s\<lparr>warning := NoWarning,
                  draftSelections := AList.update (currentIndex s) next (draftSelections s)\<rparr>))"

text \<open>\<^verbatim>\<open>optionMapping[letter] || letter\<close>\<close>

definition original_letter :: "jsstring jsobject \<Rightarrow> jsstring \<Rightarrow> jsstring" where
  "original_letter om letter =
     (case map_of om letter of None \<Rightarrow> letter | Some l \<Rightarrow> if l = [] then letter else l)"

definition submitAnswer :: "jsstring \<Rightarrow> app_state \<Rightarrow> app_state" where
  "submitAnswer now s =
     (case currentQuestion s of
        None \<Rightarrow> s
      | Some q \<Rightarrow>
          if currentResult s \<noteq> None then s
          else
            (let sel = sortLetters (case map_of (draftSelections s) (currentIndex s) of
                                      None \<Rightarrow> [] | Some d \<Rightarrow> d)
             in if length sel = 0 then s\<lparr>warning := SelectFirst\<rparr>
                else if isMultipleChoice q \<and> length sel \<noteq> length (answer q)
                then s\<lparr>warning := WrongCount (length (answer q)) (length sel)\<rparr>
                else
                  (let uaShuffled = join sel;
                       uaOriginal = join (sortLetters (map (original_letter (optionMapping q)) sel));
                       correct = (uaShuffled = shuffledAnswer q);
                       s1 = s\<lparr>answersState :=
                               AList.update (currentIndex s)
                                 \<lparr>selected = sel, isCorrect = correct,
                                  userAnswerShuffled = uaShuffled,
                                  userAnswerOriginal = uaOriginal\<rparr>
                                 (answersState s)\<rparr>;
                       s2 = (if correct then s1\<lparr>score := score s1 + 1\<rparr>
                             else upsertWrongAnswer now q uaOriginal s1);
                       s3 = s2\<lparr>warning := NoWarning\<rparr>
                   in if correct \<and> int (currentIndex s) < int (length (quizQuestions s)) - 1
                      then s3\<lparr>autoNextTimer := Some (length (quizQuestions s))\<rparr>
                      else s3)))"

text \<open>
  The two navigation buttons, which the page shows while the run has a current question,
  and the callback of the timer.
\<close>

definition previousQuestion :: "app_state \<Rightarrow> app_state" where
  "previousQuestion s =
     (if currentQuestion s = None then s
      else s\<lparr>currentIndex := currentIndex s - 1, warning := NoWarning\<rparr>)"

definition nextQuestion :: "app_state \<Rightarrow> app_state" where
  "nextQuestion s =
     (if currentQuestion s = None then s
      else s\<lparr>currentIndex := min (currentIndex s + 1) (length (quizQuestions s) - 1),
             warning := NoWarning\<rparr>)"

definition autoNextFires :: "app_state \<Rightarrow> app_state" where
  "autoNextFires s =
     (case autoNextTimer s of
        None \<Rightarrow> s
      | Some len \<Rightarrow>
          s\<lparr>currentIndex := nat (min (int (currentIndex s) + 1) (int len - 1)),
            autoNextTimer := None\<rparr>)"

definition startQuiz :: "random_source \<Rightarrow> app_state \<Rightarrow> app_state" where
  "startQuiz rnd s =
     (if length (questions s) = 0 then s
      else
        (let prepared =
               (if mode (quizSettings s) = Sequential
                then map_prepareQuestion rnd (selectSequential (quizSettings s) (questions s))
                else map_prepareQuestion (advance (length (questions s) - 1) rnd)
                       (selectRandom rnd (quizSettings s) (questions s)))
         in (resetRunState (s\<lparr>quizQuestions := prepared\<rparr>))\<lparr>showSettings := False\<rparr>))"

text \<open>
  \<^verbatim>\<open>updateNumQuestions\<close> of the settings dialog, on the number that
  \<^verbatim>\<open>Number(value)\<close> makes of the typed text.
\<close>

definition updateNumQuestions :: "real \<Rightarrow> app_state \<Rightarrow> app_state" where
  "updateNumQuestions v s =
     (let prev = quizSettings s;
          maxCount = (if mode prev = Sequential
                      then computeSequentialMaxCount (sortedQuestions (questions s)) (startQuestion prev)
                      else max 1 (real (length (questions s))))
      in s\<lparr>quizSettings := prev\<lparr>numQuestions := clamp (or_one v) 1 maxCount\<rparr>\<rparr>)"

text \<open>What the user and the timer can do while a run is on.\<close>

datatype action =
    ChangeOption jsstring bool
  | SubmitAnswer jsstring
  | PreviousQuestion
  | NextQuestion
  | AutoNextFires

fun step :: "app_state \<Rightarrow> action \<Rightarrow> app_state" where
  "step s (ChangeOption letter checked) = changeOption letter checked s"
| "step s (SubmitAnswer now) = submitAnswer now s"
| "step s PreviousQuestion = previousQuestion s"
| "step s NextQuestion = nextQuestion s"
| "step s AutoNextFires = autoNextFires s"

definition run :: "app_state \<Rightarrow> action list \<Rightarrow> app_state" where
  "run s acts = foldl step s acts"
section \<open>The wrong-answer log: notions for the statements\<close>

text \<open>A sequence of upserts, and the entry that the log holds for a question number.\<close>

definition upserts :: "wrongAnswerEntry list \<Rightarrow> wrongAnswerEntry list \<Rightarrow> wrongAnswerEntry list" where
  "upserts wl rs = foldl (\<lambda>l r. upsert r l) wl rs"

definition entry_for :: "int \<Rightarrow> wrongAnswerEntry list \<Rightarrow> wrongAnswerEntry option" where
  "entry_for n wl = find (\<lambda>e. original_number e = n) wl"

text \<open>
  The record that \<^verbatim>\<open>upsertWrongAnswer\<close> builds for a question, the user's answer in
  original letters and the time.
\<close>

definition miss_record :: "jsstring \<Rightarrow> preparedQuestion \<Rightarrow> jsstring \<Rightarrow> wrongAnswerEntry" where
  "miss_record now q ua =
     \<lparr>original_number = number q, question_text = qtext q, entry_options = options q,
      correct_answer = answer q, user_answer = ua,
      is_multiple_choice = isMultipleChoice q, timestamp = now\<rparr>"

text \<open>
  A session: runs are started, and within a run the user and the timer act. The log of
  wrong answers lives through all of it.
\<close>

datatype event = StartQuiz random_source | InRun action

fun session_step :: "app_state \<Rightarrow> event \<Rightarrow> app_state" where
  "session_step s (StartQuiz rnd) = startQuiz rnd s"
| "session_step s (InRun a) = step s a"

definition session :: "app_state \<Rightarrow> event list \<Rightarrow> app_state" where
  "session s evs = foldl session_step s evs"

text \<open>
  The misses of a session, read off the answer records: an event is a miss when it is a
  submission that writes a record marked incorrect for the current question.
\<close>

fun miss_of :: "app_state \<Rightarrow> event \<Rightarrow> wrongAnswerEntry list" where
  "miss_of s (InRun (SubmitAnswer now)) =
     (case (currentQuestion s, currentResult s,
            map_of (answersState (submitAnswer now s)) (currentIndex s)) of
        (Some q, None, Some r) \<Rightarrow>
          if isCorrect r then [] else [miss_record now q (userAnswerOriginal r)]
      | _ \<Rightarrow> [])"
| "miss_of s e = []"

fun session_misses :: "app_state \<Rightarrow> event list \<Rightarrow> wrongAnswerEntry list" where
  "session_misses s [] = []"
| "session_misses s (e # es) = miss_of s e @ session_misses (session_step s e) es"

section \<open>The quiz run: notions for the statements\<close>


definition draft :: "app_state \<Rightarrow> jsstring list" where
  "draft s = (case map_of (draftSelections s) (currentIndex s) of None \<Rightarrow> [] | Some d \<Rightarrow> d)"

text \<open>
  Sample data: the question of the bank \<^verbatim>\<open>1. What is 2+2? / A. 3 / B. 4 / Answer: B\<close>,
  a question with four options and the answer \<^verbatim>\<open>AC\<close>, and a question whose answer
  names a letter that is not among its options.
\<close>

definition question_1 :: question where
  "question_1 = \<lparr>number = 1, qtext = ascii ''What is 2+2?'',
                  options = [(ascii ''A'', ascii ''3''), (ascii ''B'', ascii ''4'')],
                  answer = ascii ''B'', images = []\<rparr>"

definition question_2 :: question where
  "question_2 = \<lparr>number = 2, qtext = ascii ''Pick two'',
                  options = [(ascii ''A'', ascii ''w''), (ascii ''B'', ascii ''x''),
                             (ascii ''C'', ascii ''y''), (ascii ''D'', ascii ''z'')],
                  answer = ascii ''AC'', images = []\<rparr>"

definition question_3 :: question where
  "question_3 = \<lparr>number = 3, qtext = ascii ''Q'',
                  options = [(ascii ''A'', ascii ''x''), (ascii ''B'', ascii ''y'')],
                  answer = ascii ''AE'', images = []\<rparr>"

text \<open>A run on \<open>question_2\<close> alone, with one option ticked and nothing submitted.\<close>

definition one_ticked :: app_state where
  "one_ticked =
     \<lparr>questions = [question_2], quizQuestions = [prepareQuestion (\<lambda>k. 0) question_2],
      currentIndex = 0, score = 0, answersState = [],
      draftSelections = [(0, [ascii ''A''])], warning = NoWarning, wrongAnswers = [],
      quizSettings = \<lparr>mode = Random, numQuestions = 100, startQuestion = 1\<rparr>,
      showSettings = False, showFinalModal = False, autoNextTimer = None\<rparr>"

text \<open>The same run after a wrong answer to its question was recorded.\<close>

definition answered_wrong :: app_state where
  "answered_wrong =
     one_ticked\<lparr>answersState :=
       [(0, \<lparr>selected = [ascii ''A'', ascii ''B''], isCorrect = False,
              userAnswerShuffled = ascii ''AB'', userAnswerOriginal = ascii ''BC''\<rparr>)],
       draftSelections := [(0, [ascii ''A'', ascii ''B''])]\<rparr>"


text \<open>A run on \<open>question_3\<close> alone, with both of its options ticked.\<close>

definition both_ticked :: app_state where
  "both_ticked =
     \<lparr>questions = [question_3], quizQuestions = [prepareQuestion (\<lambda>k. 0) question_3],
      currentIndex = 0, score = 0, answersState = [],
      draftSelections = [(0, [ascii ''A'', ascii ''B''])], warning = NoWarning, wrongAnswers = [],
      quizSettings = \<lparr>mode = Random, numQuestions = 100, startQuestion = 1\<rparr>,
      showSettings = False, showFinalModal = False, autoNextTimer = None\<rparr>"

text \<open>
  The same run when the log already holds a miss on \<open>question_3\<close>, with the answer A.
\<close>

definition missed_before :: app_state where
  "missed_before =
     both_ticked\<lparr>wrongAnswers :=
       [miss_record (ascii ''s'') (prepareQuestion (\<lambda>k. 0) question_3) (ascii ''A'')]\<rparr>"

section \<open>Selection: notions for the statements\<close>

text \<open>The question that a prepared question was made of.\<close>

definition original :: "preparedQuestion \<Rightarrow> question" where
  "original p = \<lparr>number = number p, qtext = qtext p, options = options p, answer = answer p,
                 images = images p\<rparr>"

text \<open>A bank that was just loaded, with the settings of the dialog.\<close>

definition loaded :: "question list \<Rightarrow> settings \<Rightarrow> app_state" where
  "loaded qs st =
     \<lparr>questions = qs, quizQuestions = [], currentIndex = 0, score = 0, answersState = [],
      draftSelections = [], warning = NoWarning, wrongAnswers = [], quizSettings = st,
      showSettings = True, showFinalModal = False, autoNextTimer = None\<rparr>"


definition pick_two :: settings where
  "pick_two = \<lparr>mode = Random, numQuestions = 2, startQuestion = 1\<rparr>"


definition typed_two_and_a_half :: app_state where
  "typed_two_and_a_half =
     updateNumQuestions (5 / 2)
       (loaded [question_1, question_2, question_3]
          \<lparr>mode = Random, numQuestions = 3, startQuestion = 1\<rparr>)"

section \<open>The parser: notions for the statements\<close>

text \<open>
  A block of text without images; the bank of the scenario; and a bank whose answer line
  names a letter that no option line introduced.
\<close>

definition text_block :: "string \<Rightarrow> block" where
  "text_block s = \<lparr>btext = ascii s, bimages = []\<rparr>"

definition sample_bank :: "block list" where
  "sample_bank = [text_block ''1. What is 2+2?'', text_block ''A. 3'', text_block ''B. 4'',
                  text_block ''Answer: B'']"

definition stray_answer_bank :: "block list" where
  "stray_answer_bank = [text_block ''1. Q'', text_block ''A. x'', text_block ''Answer: B'']"

text \<open>
  What the scan guarantees of a question: options and answer are not empty, the answer
  consists of the letters A to F, and the option keys are distinct single letters A to F.
\<close>

definition letter_key :: "jsstring \<Rightarrow> bool" where
  "letter_key k = (length k = 1 \<and> list_all isUpperAF k)"

definition well_formed :: "question \<Rightarrow> bool" where
  "well_formed q =
     (options q \<noteq> [] \<and> answer q \<noteq> [] \<and> list_all isUpperAF (answer q) \<and>
      list_all letter_key (map fst (options q)) \<and> distinct (map fst (options q)))"

definition parser_inv :: "parser_state \<Rightarrow> bool" where
  "parser_inv st =
     (list_all well_formed (questions_acc st) \<and>
      list_all letter_key (map fst (currentOptions st)) \<and>
      distinct (map fst (currentOptions st)) \<and>
      (case currentAnswer st of None \<Rightarrow> True | Some a \<Rightarrow> a \<noteq> [] \<and> list_all isUpperAF a))"

text \<open>The question that the scan makes of \<open>stray_answer_bank\<close>.\<close>

definition stray_question :: question where
  "stray_question = \<lparr>number = 1, qtext = ascii ''Q'', options = [(ascii ''A'', ascii ''x'')],
                      answer = ascii ''B'', images = []\<rparr>"

section \<open>The quiz run: lemmas\<close>

lemma update_absent: "map_of al k = None \<Longrightarrow> AList.update k v al = al @ [(k, v)]"
  by (induction al) (auto split: if_splits)

lemma length_sortLetters [simp]: "length (sortLetters ls) = length ls"
  by (simp add: sortLetters_def)

lemma sortLetters_Nil [simp]: "sortLetters ls = [] \<longleftrightarrow> ls = []"
  by (metis length_0_conv length_sortLetters)

lemma submitAnswer_rejected:
  assumes "currentQuestion s = Some q" "currentResult s = None"
    "draft s = [] \<or> (isMultipleChoice q \<and> length (draft s) \<noteq> length (answer q))"
  shows "submitAnswer now s =
           s\<lparr>warning := (if draft s = [] then SelectFirst
                          else WrongCount (length (answer q)) (length (draft s)))\<rparr>"
  using assms unfolding submitAnswer_def draft_def
  by (auto simp: Let_def)

lemma submitAnswer_answered:
  "currentResult s = Some r \<Longrightarrow> submitAnswer now s = s"
  unfolding submitAnswer_def by (simp split: option.splits)

lemma submitAnswer_cases:
  "(answersState (submitAnswer now s) = answersState s \<and> score (submitAnswer now s) = score s \<and>
      wrongAnswers (submitAnswer now s) = wrongAnswers s)
   \<or> (\<exists>r. currentResult s = None \<and>
          answersState (submitAnswer now s) = answersState s @ [(currentIndex s, r)] \<and>
          score (submitAnswer now s) = score s + (if isCorrect r then 1 else 0))"
proof (cases "currentQuestion s")
  case None
  then show ?thesis by (simp add: submitAnswer_def)
next
  case (Some q)
  show ?thesis
  proof (cases "currentResult s")
    case (Some r)
    then show ?thesis by (simp add: submitAnswer_answered)
  next
    case None
    then have m: "map_of (answersState s) (currentIndex s) = None"
      by (simp add: currentResult_def)
    show ?thesis
      using Some None
      unfolding submitAnswer_def
      by (auto simp: Let_def update_absent [OF m] upsertWrongAnswer_def)
  qed
qed


lemma changeOption_keeps:
  "answersState (changeOption l c s) = answersState s \<and> score (changeOption l c s) = score s \<and>
   wrongAnswers (changeOption l c s) = wrongAnswers s"
  unfolding changeOption_def by (simp add: Let_def split: option.splits)

lemma navigation_keeps:
  "answersState (previousQuestion s) = answersState s \<and> score (previousQuestion s) = score s"
  "answersState (nextQuestion s) = answersState s \<and> score (nextQuestion s) = score s"
  "answersState (autoNextFires s) = answersState s \<and> score (autoNextFires s) = score s"
  unfolding previousQuestion_def nextQuestion_def autoNextFires_def
  by (simp_all split: option.splits)

lemma step_keeps_record:
  assumes "map_of (answersState s) i = Some r"
  shows "map_of (answersState (step s a)) i = Some r"
proof (cases a)
  case (SubmitAnswer now)
  from submitAnswer_cases [of now s] show ?thesis
  proof
    assume "answersState (submitAnswer now s) = answersState s \<and> score (submitAnswer now s) = score s \<and>
      wrongAnswers (submitAnswer now s) = wrongAnswers s"
    then show ?thesis using assms SubmitAnswer by simp
  next
    assume "\<exists>r. currentResult s = None \<and>
          answersState (submitAnswer now s) = answersState s @ [(currentIndex s, r)] \<and>
          score (submitAnswer now s) = score s + (if isCorrect r then 1 else 0)"
    then obtain r' where "answersState (submitAnswer now s) = answersState s @ [(currentIndex s, r')]"
      by blast
    then show ?thesis using assms SubmitAnswer by (simp add: map_add_def)
  qed
qed (simp_all add: assms changeOption_keeps navigation_keeps)

lemma run_keeps_record:
  "map_of (answersState s) i = Some r \<Longrightarrow> map_of (answersState (run s acts)) i = Some r"
  unfolding run_def by (induction acts arbitrary: s) (simp_all add: step_keeps_record)




lemma prepareQuestion_fields:
  "number (prepareQuestion rnd q) = number q"
  "answer (prepareQuestion rnd q) = answer q"
  "options (prepareQuestion rnd q) = options q"
  "isMultipleChoice (prepareQuestion rnd q) = (1 < length (answer q))"
  by (simp_all add: prepareQuestion_def Let_def split: prod.splits)

section \<open>Shuffling: lemmas\<close>

lemma random_index_le:
  assumes "0 \<le> r" "r < 1"
  shows "random_index r i \<le> i"
proof -
  have "r * real (i + 1) < real (i + 1)"
    using assms by (simp add: mult_less_cancel_right1 del: of_nat_Suc of_nat_add)
  then have "\<lfloor>r * real (i + 1)\<rfloor> < int (i + 1)"
    by (simp add: floor_less_iff del: of_nat_Suc of_nat_add)
  then show ?thesis by (simp add: random_index_def)
qed

lemma unit_interval_advance: "unit_interval rnd \<Longrightarrow> unit_interval (advance n rnd)"
  by (simp add: unit_interval_def advance_def)

lemma shuffle_loop_mset:
  "unit_interval rnd \<Longrightarrow> n < length xs \<Longrightarrow> mset (shuffle_loop rnd n xs) = mset xs"
proof (induction n arbitrary: rnd xs)
  case 0
  then show ?case by simp
next
  case (Suc n)
  let ?j = "random_index (rnd 0) (Suc n)"
  have j: "?j \<le> Suc n"
    using Suc.prems(1) by (intro random_index_le) (simp_all add: unit_interval_def)
  then have jl: "?j < length xs" using Suc.prems(2) by simp
  let ?ys = "xs[Suc n := xs ! ?j, ?j := xs ! Suc n]"
  have m: "mset ?ys = mset xs"
    using mset_swap [OF jl Suc.prems(2)] .
  have "mset (shuffle_loop (advance 1 rnd) n ?ys) = mset ?ys"
    using Suc.prems by (intro Suc.IH unit_interval_advance) simp_all
  then show ?case using m by (simp add: Let_def)
qed

lemma shuffleArray_mset: "unit_interval rnd \<Longrightarrow> mset (shuffleArray rnd xs) = mset xs"
proof (cases xs)
  case Nil
  then show ?thesis by (simp add: shuffleArray_def)
next
  case (Cons x xs')
  assume "unit_interval rnd"
  then show ?thesis unfolding shuffleArray_def
    by (intro shuffle_loop_mset) (simp_all add: Cons)
qed

lemma shuffleArray_length: "unit_interval rnd \<Longrightarrow> length (shuffleArray rnd xs) = length xs"
  by (metis shuffleArray_mset size_mset)

section \<open>The parser: lemmas\<close>

lemmas char_classes = isDigit_def isSeparator_def isWhiteSpace_def isLineTerminator_def
  isLetterAF_def isUpperAF_def

lemma parse_block_question:
  "QUESTION_RE (normalizeText (btext b)) = Some (ds, rest) \<Longrightarrow>
   parse_block st b =
     (flushCurrentQuestion st)
        \<lparr>currentText := rest, currentOptions := [],
         currentImages := appendUniqueImages [] (bimages b),
         currentNumber := Some (Number_of_digits ds), currentAnswer := None\<rparr>"
  by (simp add: parse_block_def Let_def)

lemma parse_block_option:
  "QUESTION_RE (normalizeText (btext b)) = None \<Longrightarrow>
   OPTION_RE (normalizeText (btext b)) = Some (l, rest) \<Longrightarrow>
   parse_block st b =
     st\<lparr>currentOptions := AList.update (toUpperCase l) rest (currentOptions st),
        currentImages := appendUniqueImages (currentImages st) (bimages b)\<rparr>"
  by (simp add: parse_block_def Let_def)

lemma parse_block_answer:
  "QUESTION_RE (normalizeText (btext b)) = None \<Longrightarrow>
   OPTION_RE (normalizeText (btext b)) = None \<Longrightarrow>
   ANSWER_RE (normalizeText (btext b)) = Some letters \<Longrightarrow>
   parse_block st b = st\<lparr>currentAnswer := Some (toUpperCase letters)\<rparr>"
  by (simp add: parse_block_def Let_def)

lemma parse_block_other:
  "QUESTION_RE (normalizeText (btext b)) = None \<Longrightarrow>
   OPTION_RE (normalizeText (btext b)) = None \<Longrightarrow>
   ANSWER_RE (normalizeText (btext b)) = None \<Longrightarrow>
   parse_block st b =
     (if currentNumber st \<noteq> None
      then st\<lparr>currentImages := appendUniqueImages (currentImages st) (bimages b),
              currentText :=
                (if normalizeText (btext b) \<noteq> [] \<and> length (currentOptions st) = 0
                 then (if currentText st \<noteq> [] then currentText st @ [10] @ normalizeText (btext b)
                       else normalizeText (btext b))
                 else currentText st)\<rparr>
      else st)"
  by (simp add: parse_block_def Let_def)

lemma sample_texts:
  "normalizeText (ascii ''1. What is 2+2?'') = ascii ''1. What is 2+2?''"
  "normalizeText (ascii ''A. 3'') = ascii ''A. 3''"
  "normalizeText (ascii ''B. 4'') = ascii ''B. 4''"
  "normalizeText (ascii ''Answer: B'') = ascii ''Answer: B''"
  "normalizeText (ascii ''1. Q'') = ascii ''1. Q''"
  "normalizeText (ascii ''A. x'') = ascii ''A. x''"
  by (simp_all add: normalizeText_def trim_def ascii_def char_classes)

lemma sample_matches:
  "QUESTION_RE (ascii ''1. What is 2+2?'') = Some (ascii ''1'', ascii ''What is 2+2?'')"
  "QUESTION_RE (ascii ''1. Q'') = Some (ascii ''1'', ascii ''Q'')"
  "QUESTION_RE (ascii ''A. 3'') = None"
  "QUESTION_RE (ascii ''B. 4'') = None"
  "QUESTION_RE (ascii ''A. x'') = None"
  "QUESTION_RE (ascii ''Answer: B'') = None"
  "OPTION_RE (ascii ''A. 3'') = Some (ascii ''A'', ascii ''3'')"
  "OPTION_RE (ascii ''B. 4'') = Some (ascii ''B'', ascii ''4'')"
  "OPTION_RE (ascii ''A. x'') = Some (ascii ''A'', ascii ''x'')"
  "OPTION_RE (ascii ''Answer: B'') = None"
  "ANSWER_RE (ascii ''Answer: B'') = Some (ascii ''B'')"
  by (simp_all add: QUESTION_RE_def OPTION_RE_def ANSWER_RE_def rest_RE_def matches_ci_def
      toUpperCase_def ascii_def char_classes)

lemma sample_values:
  "Number_of_digits (ascii ''1'') = 1"
  "toUpperCase (ascii ''A'') = ascii ''A''"
  "toUpperCase (ascii ''B'') = ascii ''B''"
  "join (sortLetters (split_chars (ascii ''B''))) = ascii ''B''"
  "trim (ascii ''What is 2+2?'') = ascii ''What is 2+2?''"
  "trim (ascii ''Q'') = ascii ''Q''"
  "ascii ''A'' \<noteq> ascii ''B''"
  "ascii ''B'' \<noteq> []"
  by (simp_all add: Number_of_digits_def toUpperCase_def join_def sortLetters_def split_chars_def
      trim_def ascii_def char_classes)

lemma parse_sample_bank: "parseQuestionsFromHtml sample_bank = [question_1]"
proof -
  let ?s1 = "\<lparr>questions_acc = [], currentText = ascii ''What is 2+2?'', currentOptions = [],
              currentImages = [], currentNumber = Some 1, currentAnswer = None\<rparr>"
  have s1: "parse_block initial_parser_state (text_block ''1. What is 2+2?'') = ?s1"
    by (simp add: parse_block_question [where ds = "ascii ''1''" and rest = "ascii ''What is 2+2?''"]
        text_block_def sample_texts sample_matches sample_values flushCurrentQuestion_def
        initial_parser_state_def)
  let ?s2 = "\<lparr>questions_acc = [], currentText = ascii ''What is 2+2?'', currentOptions = [(ascii ''A'', ascii ''3'')],
              currentImages = [], currentNumber = Some 1, currentAnswer = None\<rparr>"
  have s2: "parse_block ?s1 (text_block ''A. 3'') = ?s2"
    by (simp add: parse_block_option [where l = "ascii ''A''" and rest = "ascii ''3''"]
        text_block_def sample_texts sample_matches sample_values)
  let ?s3 = "\<lparr>questions_acc = [], currentText = ascii ''What is 2+2?'', currentOptions = [(ascii ''A'', ascii ''3''), (ascii ''B'', ascii ''4'')],
              currentImages = [], currentNumber = Some 1, currentAnswer = None\<rparr>"
  have s3: "parse_block ?s2 (text_block ''B. 4'') = ?s3"
    by (simp add: parse_block_option [where l = "ascii ''B''" and rest = "ascii ''4''"]
        text_block_def sample_texts sample_matches sample_values)
  let ?s4 = "\<lparr>questions_acc = [], currentText = ascii ''What is 2+2?'', currentOptions = [(ascii ''A'', ascii ''3''), (ascii ''B'', ascii ''4'')],
              currentImages = [], currentNumber = Some 1, currentAnswer = Some (ascii ''B'')\<rparr>"
  have s4: "parse_block ?s3 (text_block ''Answer: B'') = ?s4"
    by (simp add: parse_block_answer [where letters = "ascii ''B''"]
        text_block_def sample_texts sample_matches sample_values)
  have f: "questions_acc (flushCurrentQuestion ?s4) = [question_1]"
    by (simp add: flushCurrentQuestion_def sample_values question_1_def)
  show ?thesis
    using f by (simp add: parseQuestionsFromHtml_def sample_bank_def s1 s2 s3 s4)
qed


lemma OPTION_RE_letter:
  "OPTION_RE t = Some (l, r) \<Longrightarrow> \<exists>c. l = [c] \<and> isLetterAF c"
  by (auto simp: OPTION_RE_def split: list.splits if_splits option.splits)

lemma toUpperCase_letter: "isLetterAF c \<Longrightarrow> letter_key (toUpperCase [c])"
  by (auto simp: letter_key_def toUpperCase_def isLetterAF_def isUpperAF_def)

lemma ANSWER_RE_letters:
  "ANSWER_RE t = Some ls \<Longrightarrow> ls \<noteq> [] \<and> list_all isLetterAF ls"
  by (auto simp: ANSWER_RE_def Let_def split: if_splits)

lemma toUpperCase_AF: "list_all isLetterAF ls \<Longrightarrow> list_all isUpperAF (toUpperCase ls)"
  by (induction ls) (auto simp: toUpperCase_def isLetterAF_def isUpperAF_def)

lemma toUpperCase_Nil [simp]: "toUpperCase ls = [] \<longleftrightarrow> ls = []"
  by (simp add: toUpperCase_def)

lemma toUpperCase_upper: "list_all isUpperAF a \<Longrightarrow> toUpperCase a = a"
  by (induction a) (auto simp: toUpperCase_def isUpperAF_def)

lemma set_sorted_answer: "set (join (sortLetters (split_chars s))) = set s"
  by (auto simp: join_def sortLetters_def split_chars_def)

lemma sorted_answer_props:
  assumes "a \<noteq> []" "list_all isUpperAF a"
  shows "join (sortLetters (split_chars (toUpperCase a))) \<noteq> []"
    and "list_all isUpperAF (join (sortLetters (split_chars (toUpperCase a))))"
proof -
  have s: "set (join (sortLetters (split_chars (toUpperCase a)))) = set a"
    by (simp add: set_sorted_answer toUpperCase_upper [OF assms(2)])
  show "join (sortLetters (split_chars (toUpperCase a))) \<noteq> []"
    using s assms(1) by (metis set_empty)
  show "list_all isUpperAF (join (sortLetters (split_chars (toUpperCase a))))"
    using s assms(2) by (simp add: list_all_iff)
qed

lemma flush_inv: "parser_inv st \<Longrightarrow> parser_inv (flushCurrentQuestion st)"
  unfolding parser_inv_def flushCurrentQuestion_def
  by (auto simp: well_formed_def sorted_answer_props split: option.splits)

lemma update_letter_keys:
  "letter_key k \<Longrightarrow> list_all letter_key (map fst al) \<Longrightarrow>
   list_all letter_key (map fst (AList.update k v al))"
  by (auto simp: update_keys list_all_iff)

lemma parse_block_inv:
  assumes "parser_inv st"
  shows "parser_inv (parse_block st b)"
proof (cases "QUESTION_RE (normalizeText (btext b))")
  case (Some p)
  obtain ds rest where p: "p = (ds, rest)" by (cases p)
  have "parser_inv (flushCurrentQuestion st)" by (rule flush_inv [OF assms])
  then show ?thesis
    unfolding parse_block_question [OF Some [unfolded p]]
    by (simp add: parser_inv_def)
next
  case qn: None
  show ?thesis
  proof (cases "OPTION_RE (normalizeText (btext b))")
    case (Some p)
    obtain l rest where p: "p = (l, rest)" by (cases p)
    from OPTION_RE_letter [OF Some [unfolded p]] obtain c where c: "l = [c]" "isLetterAF c"
      by blast
    have k: "letter_key (toUpperCase l)" using c by (simp add: toUpperCase_letter)
    show ?thesis
      unfolding parse_block_option [OF qn Some [unfolded p]]
      using assms k by (simp add: parser_inv_def update_letter_keys distinct_update)
  next
    case on: None
    show ?thesis
    proof (cases "ANSWER_RE (normalizeText (btext b))")
      case (Some ls)
      from ANSWER_RE_letters [OF Some] have "ls \<noteq> []" "list_all isLetterAF ls" by simp_all
      then show ?thesis
        unfolding parse_block_answer [OF qn on Some]
        using assms by (simp add: parser_inv_def toUpperCase_AF)
    next
      case None
      show ?thesis
        unfolding parse_block_other [OF qn on None]
        using assms by (simp add: parser_inv_def)
    qed
  qed
qed

lemma foldl_parse_inv: "parser_inv st \<Longrightarrow> parser_inv (foldl parse_block st blocks)"
  by (induction blocks arbitrary: st) (simp_all add: parse_block_inv)

lemma parsed_well_formed: "list_all well_formed (parseQuestionsFromHtml blocks)"
proof -
  have "parser_inv initial_parser_state"
    by (simp add: parser_inv_def initial_parser_state_def)
  then have "parser_inv (flushCurrentQuestion (foldl parse_block initial_parser_state blocks))"
    by (intro flush_inv foldl_parse_inv)
  then show ?thesis by (simp add: parseQuestionsFromHtml_def parser_inv_def)
qed

section \<open>Preparation: lemmas\<close>

lemma update_new_key: "k \<notin> fst ` set al \<Longrightarrow> AList.update k v al = al @ [(k, v)]"
  by (rule update_absent) (simp add: map_of_eq_None_iff)

lemma nth_notin_drop_Suc: "distinct L \<Longrightarrow> i < length L \<Longrightarrow> L ! i \<notin> set (drop (Suc i) L)"
  by (metis Cons_nth_drop_Suc distinct.simps(2) distinct_drop)

lemma assign_letters_zip:
  assumes "distinct L" "distinct (map fst items)" "i + length items \<le> length L"
    "fst ` set so \<inter> set (drop i L) = {}" "fst ` set om \<inter> set (drop i L) = {}"
    "fst ` set rm \<inter> fst ` set items = {}"
  shows "assign_letters L i items (so, om, rm) =
           (so @ zip (take (length items) (drop i L)) (map snd items),
            om @ zip (take (length items) (drop i L)) (map fst items),
            rm @ zip (map fst items) (map Some (take (length items) (drop i L))))"
  using assms
proof (induction items arbitrary: i so om rm)
  case Nil
  then show ?case by simp
next
  case (Cons it items)
  obtain orig otext where it: "it = (orig, otext)" by (cases it)
  have i: "i < length L" using Cons.prems(3) by simp
  have d: "drop i L = L ! i # drop (Suc i) L" using i by (simp add: Cons_nth_drop_Suc)
  have at: "at_index L i = Some (L ! i)" using i by (simp add: at_index_def)
  have k1: "L ! i \<notin> fst ` set so" using Cons.prems(4) d by auto
  have k2: "L ! i \<notin> fst ` set om" using Cons.prems(5) d by auto
  have k3: "orig \<notin> fst ` set rm" using Cons.prems(6) it by auto
  have n: "L ! i \<notin> set (drop (Suc i) L)" by (rule nth_notin_drop_Suc [OF Cons.prems(1) i])
  have o: "orig \<notin> fst ` set items" using Cons.prems(2) it by (simp add: image_iff)
  have ih: "assign_letters L (Suc i) items (so @ [(L ! i, otext)], om @ [(L ! i, orig)], rm @ [(orig, Some (L ! i))]) =
      ((so @ [(L ! i, otext)]) @ zip (take (length items) (drop (Suc i) L)) (map snd items),
       (om @ [(L ! i, orig)]) @ zip (take (length items) (drop (Suc i) L)) (map fst items),
       (rm @ [(orig, Some (L ! i))]) @ zip (map fst items) (map Some (take (length items) (drop (Suc i) L))))"
  proof (rule Cons.IH)
    show "distinct L" by (rule Cons.prems(1))
    show "distinct (map fst items)" using Cons.prems(2) by simp
    show "Suc i + length items \<le> length L" using Cons.prems(3) by simp
    show "fst ` set (so @ [(L ! i, otext)]) \<inter> set (drop (Suc i) L) = {}"
      using Cons.prems(4) n d by auto
    show "fst ` set (om @ [(L ! i, orig)]) \<inter> set (drop (Suc i) L) = {}"
      using Cons.prems(5) n d by auto
    show "fst ` set (rm @ [(orig, Some (L ! i))]) \<inter> fst ` set items = {}"
      using Cons.prems(6) o it by auto
  qed
  show ?case
    unfolding it
    by (simp add: at property_key_def update_new_key [OF k1] update_new_key [OF k2]
        update_new_key [OF k3] ih d)
qed


lemma LETTERS_props: "distinct LETTERS" "length LETTERS = 6" "\<forall>l \<in> set LETTERS. l \<noteq> []"
  by (simp_all add: LETTERS_def ascii_def)

lemma prepareQuestion_maps:
  assumes "distinct (map fst (options q))" "length (options q) \<le> 6" "unit_interval rnd"
  defines "sh \<equiv> shuffleArray rnd (options q)"
  defines "ls \<equiv> take (length sh) LETTERS"
  shows "shuffledOptions (prepareQuestion rnd q) = zip ls (map snd sh)"
    and "optionMapping (prepareQuestion rnd q) = zip ls (map fst sh)"
    and "reverseMapping (prepareQuestion rnd q) = zip (map fst sh) (map Some ls)"
    and "distinct ls" and "length ls = length sh" and "distinct (map fst sh)"
    and "set (map fst sh) = set (map fst (options q))"
proof -
  have m: "mset sh = mset (options q)" unfolding sh_def by (rule shuffleArray_mset [OF assms(3)])
  have l: "length sh = length (options q)" by (metis m size_mset)
  have mm: "mset (map fst sh) = mset (map fst (options q))" using m by (metis mset_map)
  show d: "distinct (map fst sh)" using assms(1) mm by (metis mset_eq_imp_distinct_iff)
  show "set (map fst sh) = set (map fst (options q))" using mm by (metis mset_eq_setD)
  have n: "length sh \<le> length LETTERS" using l assms(2) by (simp add: LETTERS_props)
  show ll: "length ls = length sh" using n by (simp add: ls_def)
  show "distinct ls" by (simp add: ls_def LETTERS_props distinct_take)
  have dl: "distinct ls" by (simp add: ls_def LETTERS_props distinct_take)
  have a: "assign_letters ls 0 sh ([], [], []) =
      ([] @ zip (take (length sh) (drop 0 ls)) (map snd sh),
       [] @ zip (take (length sh) (drop 0 ls)) (map fst sh),
       [] @ zip (map fst sh) (map Some (take (length sh) (drop 0 ls))))"
    by (rule assign_letters_zip [OF dl d]) (simp_all add: ll)
  then have a': "assign_letters ls 0 sh ([], [], []) =
      (zip ls (map snd sh), zip ls (map fst sh), zip (map fst sh) (map Some ls))"
    by (simp add: ll)
  show "shuffledOptions (prepareQuestion rnd q) = zip ls (map snd sh)"
    "optionMapping (prepareQuestion rnd q) = zip ls (map fst sh)"
    "reverseMapping (prepareQuestion rnd q) = zip (map fst sh) (map Some ls)"
    using a' by (simp_all add: prepareQuestion_def Let_def sh_def [symmetric] ls_def [symmetric])
qed

lemma well_formed_options:
  assumes "well_formed q"
  shows "distinct (map fst (options q))" "length (options q) \<le> 6"
    "\<forall>k \<in> set (map fst (options q)). k \<noteq> []"
proof -
  show d: "distinct (map fst (options q))" using assms by (simp add: well_formed_def)
  have k: "list_all letter_key (map fst (options q))" using assms by (simp add: well_formed_def)
  show "\<forall>k \<in> set (map fst (options q)). k \<noteq> []"
    using k by (auto simp: list_all_iff letter_key_def)
  have "set (map fst (options q)) \<subseteq> (\<lambda>c. [c]) ` {65..70}"
  proof
    fix x assume "x \<in> set (map fst (options q))"
    then have "letter_key x" using k by (auto simp: list_all_iff)
    then obtain c where "x = [c]" "isUpperAF c"
      by (cases x) (auto simp: letter_key_def)
    then show "x \<in> (\<lambda>c. [c]) ` {65..70}" by (auto simp: isUpperAF_def)
  qed
  then have "card (set (map fst (options q))) \<le> card ((\<lambda>c::nat. [c]) ` {65..70})"
    by (intro card_mono) simp_all
  also have "\<dots> \<le> card {65..70::nat}" by (rule card_image_le) simp
  also have "\<dots> = 6" by simp
  finally have "card (set (map fst (options q))) \<le> 6" .
  moreover have "card (set (map fst (options q))) = length (map fst (options q))"
    by (rule distinct_card [OF d])
  ultimately show "length (options q) \<le> 6" by simp
qed


lemma shuffle_two: "shuffleArray (\<lambda>k. 0) [a, b] = [b, a]"
  by (simp add: shuffleArray_def random_index_def)

lemma prepared_question_1:
  "prepareQuestion (\<lambda>k. 0) question_1 =
     \<lparr>number = 1, qtext = ascii ''What is 2+2?'',
      options = [(ascii ''A'', ascii ''3''), (ascii ''B'', ascii ''4'')],
      answer = ascii ''B'', images = [],
      isMultipleChoice = False,
      shuffledOptions = [(ascii ''A'', ascii ''4''), (ascii ''B'', ascii ''3'')],
      optionMapping = [(ascii ''A'', ascii ''B''), (ascii ''B'', ascii ''A'')],
      reverseMapping = [(ascii ''B'', Some (ascii ''A'')), (ascii ''A'', Some (ascii ''B''))],
      shuffledAnswer = ascii ''A''\<rparr>"
  by (simp add: prepareQuestion_def question_1_def shuffle_two LETTERS_def at_index_def
      property_key_def get_property_def split_chars_def join_def sortLetters_def ascii_def)

lemma prepared_question_3:
  "prepareQuestion (\<lambda>k. 0) question_3 =
     \<lparr>number = 3, qtext = ascii ''Q'',
      options = [(ascii ''A'', ascii ''x''), (ascii ''B'', ascii ''y'')],
      answer = ascii ''AE'', images = [],
      isMultipleChoice = True,
      shuffledOptions = [(ascii ''A'', ascii ''y''), (ascii ''B'', ascii ''x'')],
      optionMapping = [(ascii ''A'', ascii ''B''), (ascii ''B'', ascii ''A'')],
      reverseMapping = [(ascii ''B'', Some (ascii ''A'')), (ascii ''A'', Some (ascii ''B''))],
      shuffledAnswer = ascii ''B''\<rparr>"
  by (simp add: prepareQuestion_def question_3_def shuffle_two LETTERS_def at_index_def
      property_key_def get_property_def split_chars_def join_def sortLetters_def ascii_def)

section \<open>Selection: lemmas\<close>

lemma trunc_nonneg: "0 \<le> k \<Longrightarrow> trunc k = \<lfloor>k\<rfloor>"
  by (simp add: trunc_def)

lemma original_prepareQuestion: "original (prepareQuestion rnd q) = q"
  by (simp add: original_def prepareQuestion_def Let_def split: prod.splits)

lemma original_map_prepareQuestion: "map original (map_prepareQuestion rnd qs) = qs"
  by (induction qs arbitrary: rnd) (simp_all add: original_prepareQuestion)

lemma startQuiz_run:
  "questions s \<noteq> [] \<Longrightarrow>
   quizQuestions (startQuiz rnd s) =
     (if mode (quizSettings s) = Sequential
      then map_prepareQuestion rnd (selectSequential (quizSettings s) (questions s))
      else map_prepareQuestion (advance (length (questions s) - 1) rnd)
             (selectRandom rnd (quizSettings s) (questions s)))"
  by (simp add: startQuiz_def resetRunState_def Let_def)




section \<open>What the parser emits\<close>

text \<open>
  C1 as the specification states it asks that every letter of an emitted answer is a key
  of the question's options. The scan never compares the two: on the blocks
  \<^verbatim>\<open>1. Q\<close>, \<^verbatim>\<open>A. x\<close>, \<^verbatim>\<open>Answer: B\<close> it emits a question whose only option is A
  and whose answer is B.
\<close>

theorem answer_letter_without_option:
  "parseQuestionsFromHtml stray_answer_bank = [stray_question]
   \<and> options stray_question \<noteq> []
   \<and> answer stray_question = ascii ''B''
   \<and> ascii ''B'' \<notin> fst ` set (options stray_question)"
proof -
  have s1: "parse_block initial_parser_state (text_block ''1. Q'') =
      \<lparr>questions_acc = [], currentText = ascii ''Q'', currentOptions = [],
       currentImages = [], currentNumber = Some 1, currentAnswer = None\<rparr>"
    by (simp add: parse_block_question [where ds = "ascii ''1''" and rest = "ascii ''Q''"]
        text_block_def sample_texts sample_matches sample_values flushCurrentQuestion_def
        initial_parser_state_def)
  have s2: "parse_block
      \<lparr>questions_acc = [], currentText = ascii ''Q'', currentOptions = [],
       currentImages = [], currentNumber = Some 1, currentAnswer = None\<rparr>
      (text_block ''A. x'') =
      \<lparr>questions_acc = [], currentText = ascii ''Q'', currentOptions = [(ascii ''A'', ascii ''x'')],
       currentImages = [], currentNumber = Some 1, currentAnswer = None\<rparr>"
    by (simp add: parse_block_option [where l = "ascii ''A''" and rest = "ascii ''x''"]
        text_block_def sample_texts sample_matches sample_values)
  have s3: "parse_block
      \<lparr>questions_acc = [], currentText = ascii ''Q'', currentOptions = [(ascii ''A'', ascii ''x'')],
       currentImages = [], currentNumber = Some 1, currentAnswer = None\<rparr>
      (text_block ''Answer: B'') =
      \<lparr>questions_acc = [], currentText = ascii ''Q'', currentOptions = [(ascii ''A'', ascii ''x'')],
       currentImages = [], currentNumber = Some 1, currentAnswer = Some (ascii ''B'')\<rparr>"
    by (simp add: parse_block_answer [where letters = "ascii ''B''"]
        text_block_def sample_texts sample_matches sample_values)
  have f: "questions_acc (flushCurrentQuestion
      \<lparr>questions_acc = [], currentText = ascii ''Q'', currentOptions = [(ascii ''A'', ascii ''x'')],
       currentImages = [], currentNumber = Some 1, currentAnswer = Some (ascii ''B'')\<rparr>) =
      [stray_question]"
    by (simp add: flushCurrentQuestion_def sample_values stray_question_def)
  have p: "parseQuestionsFromHtml stray_answer_bank = [stray_question]"
    using f by (simp add: parseQuestionsFromHtml_def stray_answer_bank_def s1 s2 s3)
  have "ascii ''B'' \<notin> fst ` set (options stray_question)"
    by (simp add: stray_question_def sample_values(7) [symmetric])
  with p show ?thesis by (simp add: stray_question_def)
qed


text \<open>
  C1, amended. For every block sequence, every question the parser emits has at least one
  option and a non-empty answer; every letter of its answer is one of the letters A to F;
  and its option keys are distinct single letters A to F. (The letters of the answer need
  not be among the option keys.)
\<close>

theorem parsed_questions_shape:
  "\<forall>q \<in> set (parseQuestionsFromHtml blocks).
     options q \<noteq> [] \<and> answer q \<noteq> [] \<and> (\<forall>c \<in> set (answer q). isUpperAF c) \<and>
     (\<forall>k \<in> fst ` set (options q). \<exists>c. k = [c] \<and> isUpperAF c) \<and>
     distinct (map fst (options q))"
proof
  fix q assume "q \<in> set (parseQuestionsFromHtml blocks)"
  then have wf: "well_formed q" using parsed_well_formed [of blocks] by (simp add: list_all_iff)
  have "\<forall>k \<in> fst ` set (options q). \<exists>c. k = [c] \<and> isUpperAF c"
  proof
    fix k assume "k \<in> fst ` set (options q)"
    then have "letter_key k" using wf by (auto simp: well_formed_def list_all_iff)
    then show "\<exists>c. k = [c] \<and> isUpperAF c" by (cases k) (auto simp: letter_key_def)
  qed
  then show "options q \<noteq> [] \<and> answer q \<noteq> [] \<and> (\<forall>c \<in> set (answer q). isUpperAF c) \<and>
     (\<forall>k \<in> fst ` set (options q). \<exists>c. k = [c] \<and> isUpperAF c) \<and>
     distinct (map fst (options q))"
    using wf by (simp add: well_formed_def list_all_iff)
qed

theorem parsed_questions_shape_witness:
  "question_1 \<in> set (parseQuestionsFromHtml sample_bank)
   \<and> options question_1 \<noteq> [] \<and> answer question_1 \<noteq> []
   \<and> list_all isUpperAF (answer question_1)
   \<and> distinct (map fst (options question_1))"
proof -
  have m: "question_1 \<in> set (parseQuestionsFromHtml sample_bank)"
    by (simp add: parse_sample_bank)
  from parsed_questions_shape [of sample_bank] m show ?thesis
    by (simp add: list_all_iff)
qed

section \<open>The two mappings of a prepared question\<close>

lemma map_fst_zip_eq: "length xs = length ys \<Longrightarrow> fst ` set (zip xs ys) = set xs"
  by (metis map_fst_zip set_map)

text \<open>
  C2. For every question that the parser emits, prepared with draws in \<open>[0, 1)\<close>:
  every key of \<^verbatim>\<open>shuffledOptions\<close> is mapped by \<^verbatim>\<open>optionMapping\<close> to an original
  option letter that \<^verbatim>\<open>reverseMapping\<close> maps back to it, every original option letter
  is mapped by \<^verbatim>\<open>reverseMapping\<close> to a shuffled letter that \<^verbatim>\<open>optionMapping\<close>
  maps back to it, and translating a selection of shuffled letters to original letters as
  \<^verbatim>\<open>submitAnswer\<close> does and back through \<^verbatim>\<open>reverseMapping\<close> gives the selection.
\<close>

theorem option_mappings_inverse:
  assumes "q \<in> set (parseQuestionsFromHtml blocks)" "unit_interval rnd"
  defines "p \<equiv> prepareQuestion rnd q"
  shows "(\<forall>letter \<in> fst ` set (shuffledOptions p).
            \<exists>orig. map_of (optionMapping p) letter = Some orig \<and> orig \<in> fst ` set (options q) \<and>
                   get_property (reverseMapping p) orig = Some letter)
       \<and> (\<forall>orig \<in> fst ` set (options q).
            \<exists>letter. get_property (reverseMapping p) orig = Some letter \<and>
                     letter \<in> fst ` set (shuffledOptions p) \<and>
                     map_of (optionMapping p) letter = Some orig)
       \<and> (\<forall>sel. set sel \<subseteq> fst ` set (shuffledOptions p) \<longrightarrow>
            map (get_property (reverseMapping p)) (map (original_letter (optionMapping p)) sel) =
            map Some sel)"
proof -
  have wf: "well_formed q" using assms(1) parsed_well_formed [of blocks] by (simp add: list_all_iff)
  note w = well_formed_options [OF wf]
  let ?sh = "shuffleArray rnd (options q)"
  let ?ls = "take (length ?sh) LETTERS"
  let ?os = "map fst ?sh"
  note pm = prepareQuestion_maps [OF w(1) w(2) assms(2)]
  have so: "shuffledOptions p = zip ?ls (map snd ?sh)" unfolding p_def by (rule pm(1))
  have om: "optionMapping p = zip ?ls ?os" unfolding p_def by (rule pm(2))
  have rm: "reverseMapping p = zip ?os (map Some ?ls)" unfolding p_def by (rule pm(3))
  have dl: "distinct ?ls" by (rule pm(4))
  have ll: "length ?ls = length ?sh" by (rule pm(5))
  have dos: "distinct ?os" by (rule pm(6))
  have sos: "set ?os = fst ` set (options q)" using pm(7) by simp
  have keys: "fst ` set (shuffledOptions p) = set ?ls"
    unfolding so by (rule map_fst_zip_eq) (simp only: ll length_map)
  have at: "\<And>k. k < length ?sh \<Longrightarrow>
      map_of (optionMapping p) (?ls ! k) = Some (?os ! k) \<and>
      get_property (reverseMapping p) (?os ! k) = Some (?ls ! k)"
  proof -
    fix k assume k: "k < length ?sh"
    have 1: "map_of (zip ?ls ?os) (?ls ! k) = Some (?os ! k)"
      by (rule map_of_zip_nth) (simp_all add: ll dl k del: length_take)
    have "map_of (zip ?os (map Some ?ls)) (?os ! k) = Some (map Some ?ls ! k)"
      by (rule map_of_zip_nth) (simp_all add: ll dos k del: length_take)
    then have 2: "map_of (zip ?os (map Some ?ls)) (?os ! k) = Some (Some (?ls ! k))"
      using k ll by (simp del: length_take)
    show "map_of (optionMapping p) (?ls ! k) = Some (?os ! k) \<and>
      get_property (reverseMapping p) (?os ! k) = Some (?ls ! k)"
      unfolding om rm get_property_def using 1 2 by simp
  qed
  have a: "\<forall>letter \<in> fst ` set (shuffledOptions p).
            \<exists>orig. map_of (optionMapping p) letter = Some orig \<and> orig \<in> fst ` set (options q) \<and>
                   get_property (reverseMapping p) orig = Some letter"
  proof
    fix letter assume "letter \<in> fst ` set (shuffledOptions p)"
    then have "letter \<in> set ?ls" unfolding keys .
    then obtain k where k: "k < length ?ls" "letter = ?ls ! k" by (metis in_set_conv_nth)
    then have k': "k < length ?sh" using ll by simp
    have "?os ! k \<in> set ?os" using k' by (metis length_map nth_mem)
    then have "?os ! k \<in> fst ` set (options q)" unfolding sos .
    then show "\<exists>orig. map_of (optionMapping p) letter = Some orig \<and> orig \<in> fst ` set (options q) \<and>
                   get_property (reverseMapping p) orig = Some letter"
      using at [OF k'] k(2) by blast
  qed
  have b: "\<forall>orig \<in> fst ` set (options q).
            \<exists>letter. get_property (reverseMapping p) orig = Some letter \<and>
                     letter \<in> fst ` set (shuffledOptions p) \<and>
                     map_of (optionMapping p) letter = Some orig"
  proof
    fix orig assume "orig \<in> fst ` set (options q)"
    then have "orig \<in> set ?os" unfolding sos .
    then obtain k where k: "k < length ?os" "orig = ?os ! k" by (metis in_set_conv_nth)
    then have k': "k < length ?sh" by simp
    have "?ls ! k \<in> set ?ls" using k' ll by (metis nth_mem)
    then have "?ls ! k \<in> fst ` set (shuffledOptions p)" unfolding keys .
    then show "\<exists>letter. get_property (reverseMapping p) orig = Some letter \<and>
                     letter \<in> fst ` set (shuffledOptions p) \<and>
                     map_of (optionMapping p) letter = Some orig"
      using at [OF k'] k(2) by blast
  qed
  have c: "\<forall>sel. set sel \<subseteq> fst ` set (shuffledOptions p) \<longrightarrow>
            map (get_property (reverseMapping p)) (map (original_letter (optionMapping p)) sel) =
            map Some sel"
  proof (intro allI impI)
    fix sel assume s: "set sel \<subseteq> fst ` set (shuffledOptions p)"
    have "\<And>l. l \<in> set sel \<Longrightarrow>
        get_property (reverseMapping p) (original_letter (optionMapping p) l) = Some l"
    proof -
      fix l assume "l \<in> set sel"
      then have "l \<in> fst ` set (shuffledOptions p)" using s by blast
      with a obtain orig where o: "map_of (optionMapping p) l = Some orig"
        "orig \<in> fst ` set (options q)" "get_property (reverseMapping p) orig = Some l"
        by blast
      have "orig \<noteq> []" using w(3) o(2) by auto
      then have "original_letter (optionMapping p) l = orig"
        using o(1) by (simp add: original_letter_def)
      then show "get_property (reverseMapping p) (original_letter (optionMapping p) l) = Some l"
        using o(3) by simp
    qed
    then show "map (get_property (reverseMapping p)) (map (original_letter (optionMapping p)) sel) =
            map Some sel"
      by simp
  qed
  from a b c show ?thesis by blast
qed


theorem option_mappings_inverse_witness:
  "question_1 \<in> set (parseQuestionsFromHtml sample_bank)
   \<and> unit_interval (\<lambda>k. 0)
   \<and> ascii ''A'' \<in> fst ` set (shuffledOptions (prepareQuestion (\<lambda>k. 0) question_1))
   \<and> map_of (optionMapping (prepareQuestion (\<lambda>k. 0) question_1)) (ascii ''A'') = Some (ascii ''B'')
   \<and> get_property (reverseMapping (prepareQuestion (\<lambda>k. 0) question_1)) (ascii ''B'') =
       Some (ascii ''A'')
   \<and> map (get_property (reverseMapping (prepareQuestion (\<lambda>k. 0) question_1)))
        (map (original_letter (optionMapping (prepareQuestion (\<lambda>k. 0) question_1))) [ascii ''A'']) =
      [Some (ascii ''A'')]"
proof -
  let ?p = "prepareQuestion (\<lambda>k. 0) question_1"
  have m: "question_1 \<in> set (parseQuestionsFromHtml sample_bank)"
    by (simp add: parse_sample_bank)
  have u: "unit_interval (\<lambda>k. 0)" by (simp add: unit_interval_def)
  have k: "ascii ''A'' \<in> fst ` set (shuffledOptions ?p)"
    by (simp add: prepared_question_1)
  have o: "map_of (optionMapping ?p) (ascii ''A'') = Some (ascii ''B'')"
    by (simp add: prepared_question_1)
  note t = option_mappings_inverse [OF m u]
  from t k obtain orig where "map_of (optionMapping ?p) (ascii ''A'') = Some orig"
    "get_property (reverseMapping ?p) orig = Some (ascii ''A'')"
    by blast
  with o have r: "get_property (reverseMapping ?p) (ascii ''B'') = Some (ascii ''A'')" by simp
  have "set [ascii ''A''] \<subseteq> fst ` set (shuffledOptions ?p)" using k by simp
  with t have s: "map (get_property (reverseMapping ?p))
        (map (original_letter (optionMapping ?p)) [ascii ''A'']) = map Some [ascii ''A'']"
    by blast
  from m u k o r s show ?thesis by simp
qed

section \<open>Sequential selection\<close>












section \<open>Answer submission\<close>

text \<open>
  C4. For a current question without an answer record, submitting a selection that is
  empty, or whose size differs from the number of answer letters when the question is
  multiple-choice, sets a warning and changes nothing else: no answer record is created,
  and the score and the wrong-answer log stay as they were.
\<close>

theorem submit_rejected_keeps_state:
  assumes "currentQuestion s = Some q" "currentResult s = None"
    "draft s = [] \<or> (isMultipleChoice q \<and> length (draft s) \<noteq> length (answer q))"
  shows "warning (submitAnswer now s) \<noteq> NoWarning
       \<and> submitAnswer now s = s\<lparr>warning := warning (submitAnswer now s)\<rparr>
       \<and> currentResult (submitAnswer now s) = None
       \<and> answersState (submitAnswer now s) = answersState s
       \<and> score (submitAnswer now s) = score s
       \<and> wrongAnswers (submitAnswer now s) = wrongAnswers s"
  using assms(2) unfolding submitAnswer_rejected [OF assms]
  by (simp add: currentResult_def)

theorem submit_rejected_keeps_state_witness:
  "currentQuestion one_ticked = Some (prepareQuestion (\<lambda>k. 0) question_2)
   \<and> currentResult one_ticked = None
   \<and> draft one_ticked = [ascii ''A'']
   \<and> isMultipleChoice (prepareQuestion (\<lambda>k. 0) question_2)
   \<and> length (answer (prepareQuestion (\<lambda>k. 0) question_2)) = 2
   \<and> warning (submitAnswer (ascii ''t'') one_ticked) \<noteq> NoWarning
   \<and> answersState (submitAnswer (ascii ''t'') one_ticked) = []
   \<and> score (submitAnswer (ascii ''t'') one_ticked) = 0
   \<and> wrongAnswers (submitAnswer (ascii ''t'') one_ticked) = []"
proof -
  have q: "currentQuestion one_ticked = Some (prepareQuestion (\<lambda>k. 0) question_2)"
    by (simp add: currentQuestion_def at_index_def one_ticked_def)
  have r: "currentResult one_ticked = None"
    by (simp add: currentResult_def one_ticked_def)
  have d: "draft one_ticked = [ascii ''A'']"
    by (simp add: draft_def one_ticked_def)
  have m: "isMultipleChoice (prepareQuestion (\<lambda>k. 0) question_2)"
    "length (answer (prepareQuestion (\<lambda>k. 0) question_2)) = 2"
    by (simp_all add: prepareQuestion_fields question_2_def ascii_def)
  have h: "draft one_ticked = [] \<or> (isMultipleChoice (prepareQuestion (\<lambda>k. 0) question_2) \<and>
             length (draft one_ticked) \<noteq> length (answer (prepareQuestion (\<lambda>k. 0) question_2)))"
    using m d by simp
  have s: "answersState one_ticked = []" "score one_ticked = 0" "wrongAnswers one_ticked = []"
    by (simp_all add: one_ticked_def)
  from submit_rejected_keeps_state [OF q r h, of "ascii ''t''"] q r d m s
  show ?thesis by simp
qed

section \<open>The wrong-answer log\<close>

lemma findIndex_none: "(\<forall>x \<in> set xs. \<not> P x) \<Longrightarrow> findIndex P xs = -1"
  by (induction xs) auto

lemma findIndex_some:
  "\<exists>x \<in> set xs. P x \<Longrightarrow>
     0 \<le> findIndex P xs \<and> nat (findIndex P xs) < length xs \<and> P (xs ! nat (findIndex P xs)) \<and>
     (\<forall>j < nat (findIndex P xs). \<not> P (xs ! j))"
proof (induction xs)
  case Nil
  then show ?case by simp
next
  case (Cons x xs)
  show ?case
  proof (cases "P x")
    case True
    then show ?thesis by simp
  next
    case False
    with Cons.prems have ex: "\<exists>x \<in> set xs. P x" by auto
    note ih = Cons.IH [OF ex]
    from ih have r: "0 \<le> findIndex P xs" by simp
    have eq: "findIndex P (x # xs) = findIndex P xs + 1"
      using False r by (simp add: Let_def)
    have n: "nat (findIndex P xs + 1) = Suc (nat (findIndex P xs))"
      using r by simp
    show ?thesis
      unfolding eq n using ih False r by (auto simp: less_Suc_eq_0_disj)
  qed
qed

lemma upsert_absent:
  "original_number r \<notin> original_number ` set wl \<Longrightarrow> upsert r wl = wl @ [r]"
proof -
  assume a: "original_number r \<notin> original_number ` set wl"
  then have "findIndex (\<lambda>item. original_number item = original_number r) wl = -1"
    by (intro findIndex_none) (metis image_eqI)
  then show ?thesis by (simp add: upsert_def)
qed

lemma upsert_present:
  assumes "distinct (map original_number wl)" "i < length wl"
    "original_number (wl ! i) = original_number r"
  shows "upsert r wl = wl[i := r]"
proof -
  let ?P = "\<lambda>item. original_number item = original_number r"
  have ex: "\<exists>x \<in> set wl. ?P x" using assms(2,3) by (metis nth_mem)
  note f = findIndex_some [OF ex]
  let ?k = "nat (findIndex ?P wl)"
  have k: "?k < length (map original_number wl)" using f by simp
  have i: "i < length (map original_number wl)" using assms(2) by simp
  have "map original_number wl ! ?k = map original_number wl ! i"
    using f assms(2,3) by simp
  then have "?k = i"
    using nth_eq_iff_index_eq [OF assms(1) k i] by blast
  then show ?thesis using f by (simp add: upsert_def)
qed

lemma upsert_numbers:
  "map original_number (upsert r wl) =
     (if original_number r \<in> original_number ` set wl then map original_number wl
      else map original_number wl @ [original_number r])"
proof (cases "original_number r \<in> original_number ` set wl")
  case False
  then show ?thesis by (simp add: upsert_absent)
next
  case True
  let ?P = "\<lambda>item. original_number item = original_number r"
  have ex: "\<exists>x \<in> set wl. ?P x" using True by auto
  note f = findIndex_some [OF ex]
  have "map original_number (wl[nat (findIndex ?P wl) := r]) = map original_number wl"
    using f by (simp add: map_update list_update_same_conv)
  then show ?thesis using True f by (simp add: upsert_def)
qed

lemma upsert_distinct:
  "distinct (map original_number wl) \<Longrightarrow> distinct (map original_number (upsert r wl))"
  by (simp add: upsert_numbers)

lemma entry_for_upsert:
  "entry_for n (upsert r wl) = (if n = original_number r then Some r else entry_for n wl)"
proof (induction wl)
  case Nil
  then show ?case by (auto simp: entry_for_def upsert_def)
next
  case (Cons e wl)
  let ?P = "\<lambda>item. original_number item = original_number r"
  show ?case
  proof (cases "?P e")
    case True
    then show ?thesis by (auto simp: entry_for_def upsert_def)
  next
    case False
    have up: "upsert r (e # wl) = e # upsert r wl"
    proof (cases "findIndex ?P wl \<ge> 0")
      case True
      then have "nat (findIndex ?P wl + 1) = Suc (nat (findIndex ?P wl))" by simp
      then show ?thesis using False True by (simp add: upsert_def Let_def)
    next
      case F: False
      then show ?thesis using False by (simp add: upsert_def Let_def)
    qed
    show ?thesis using Cons.IH False unfolding up by (auto simp: entry_for_def)
  qed
qed

lemma upserts_distinct:
  "distinct (map original_number wl) \<Longrightarrow> distinct (map original_number (upserts wl rs))"
  unfolding upserts_def by (induction rs arbitrary: wl) (simp_all add: upsert_distinct)

lemma entry_for_upserts:
  "entry_for n (upserts wl rs) =
     (if filter (\<lambda>r. original_number r = n) rs = [] then entry_for n wl
      else Some (last (filter (\<lambda>r. original_number r = n) rs)))"
  unfolding upserts_def
proof (induction rs arbitrary: wl)
  case Nil
  then show ?case by simp
next
  case (Cons r rs)
  show ?case by (simp add: Cons.IH entry_for_upsert)
qed



lemma upsertWrongAnswer_log:
  "wrongAnswers (upsertWrongAnswer now q ua s) = upsert (miss_record now q ua) (wrongAnswers s)"
  by (simp add: upsertWrongAnswer_def miss_record_def)

lemma miss_record_number [simp]: "original_number (miss_record now q ua) = number q"
  by (simp add: miss_record_def)

lemma upsertWrongAnswer_keeps:
  "answersState (upsertWrongAnswer now q ua s) = answersState s"
  "currentIndex (upsertWrongAnswer now q ua s) = currentIndex s"
  by (simp_all add: upsertWrongAnswer_def)

lemma submitAnswer_writes:
  assumes "currentQuestion s = Some q" "currentResult s = None"
    "\<not> (draft s = [] \<or> (isMultipleChoice q \<and> length (draft s) \<noteq> length (answer q)))"
  shows "map_of (answersState (submitAnswer now s)) (currentIndex s) =
      Some \<lparr>selected = sortLetters (draft s),
            isCorrect = (join (sortLetters (draft s)) = shuffledAnswer q),
            userAnswerShuffled = join (sortLetters (draft s)),
            userAnswerOriginal =
              join (sortLetters (map (original_letter (optionMapping q)) (sortLetters (draft s))))\<rparr>"
    and "wrongAnswers (submitAnswer now s) =
      (if join (sortLetters (draft s)) = shuffledAnswer q then wrongAnswers s
       else upsert (miss_record now q
              (join (sortLetters (map (original_letter (optionMapping q)) (sortLetters (draft s))))))
              (wrongAnswers s))"
  using assms unfolding submitAnswer_def draft_def [symmetric]
  by (auto simp: Let_def update_conv' upsertWrongAnswer_log upsertWrongAnswer_keeps)

lemma submitAnswer_log:
  "wrongAnswers (submitAnswer now s) =
     upserts (wrongAnswers s) (miss_of s (InRun (SubmitAnswer now)))"
proof (cases "currentQuestion s")
  case None
  then show ?thesis by (simp add: submitAnswer_def upserts_def)
next
  case (Some q)
  show ?thesis
  proof (cases "currentResult s")
    case r: (Some r)
    then show ?thesis using Some by (simp add: submitAnswer_answered upserts_def)
  next
    case None
    show ?thesis
    proof (cases "draft s = [] \<or> (isMultipleChoice q \<and> length (draft s) \<noteq> length (answer q))")
      case True
      have m: "map_of (answersState s) (currentIndex s) = None"
        using None by (simp add: currentResult_def)
      note sa = submitAnswer_rejected [OF Some None True, of now]
      have "map_of (answersState (submitAnswer now s)) (currentIndex s) = None"
        unfolding sa using m by simp
      then have "miss_of s (InRun (SubmitAnswer now)) = []"
        using Some None by simp
      moreover have "wrongAnswers (submitAnswer now s) = wrongAnswers s"
        unfolding sa by simp
      ultimately show ?thesis by (simp add: upserts_def)
    next
      case False
      note w = submitAnswer_writes [OF Some None False, of now]
      show ?thesis using Some None by (simp add: w upserts_def)
    qed
  qed
qed

lemma step_log: "wrongAnswers (session_step s e) = upserts (wrongAnswers s) (miss_of s e)"
proof (cases e)
  case (StartQuiz rnd)
  then show ?thesis by (simp add: startQuiz_def resetRunState_def Let_def upserts_def)
next
  case (InRun a)
  show ?thesis
  proof (cases a)
    case (SubmitAnswer now)
    then show ?thesis using InRun by (simp add: submitAnswer_log del: miss_of.simps)
  qed (simp_all add: InRun changeOption_keeps previousQuestion_def nextQuestion_def
        autoNextFires_def upserts_def split: option.splits)
qed

lemma upserts_append: "upserts wl (a @ b) = upserts (upserts wl a) b"
  by (simp add: upserts_def)

lemma session_log:
  "wrongAnswers (session s evs) = upserts (wrongAnswers s) (session_misses s evs)"
proof (induction evs arbitrary: s)
  case Nil
  then show ?case by (simp add: session_def upserts_def)
next
  case (Cons e evs)
  have "wrongAnswers (session s (e # evs)) = wrongAnswers (session (session_step s e) evs)"
    by (simp add: session_def)
  also have "\<dots> = upserts (wrongAnswers (session_step s e)) (session_misses (session_step s e) evs)"
    by (rule Cons.IH)
  also have "\<dots> = upserts (wrongAnswers s) (session_misses s (e # evs))"
    by (simp add: step_log upserts_append)
  finally show ?case .
qed

text \<open>
  C5. The wrong-answer log keeps at most one entry per original question number. On a
  state whose log has pairwise distinct numbers (the empty log of a fresh browser in
  particular), \<^verbatim>\<open>upsertWrongAnswer\<close> for a question whose number is at position \<open>i\<close>
  replaces the entry at \<open>i\<close> and moves nothing, and for a question with a new number
  appends its record at the end. Through any session of run starts and actions the log is
  the initial log with the misses of the session upserted in order, where a miss is a
  submission that writes a record marked incorrect; so the numbers stay pairwise distinct,
  and the entry of every missed number is the record of the last miss on it.
\<close>

theorem wrong_log_upsert:
  assumes "distinct (map original_number (wrongAnswers s))"
  shows "(\<forall>i < length (wrongAnswers s). original_number (wrongAnswers s ! i) = number q \<longrightarrow>
            wrongAnswers (upsertWrongAnswer now q ua s) = (wrongAnswers s)[i := miss_record now q ua])
       \<and> (number q \<notin> original_number ` set (wrongAnswers s) \<longrightarrow>
            wrongAnswers (upsertWrongAnswer now q ua s) = wrongAnswers s @ [miss_record now q ua])
       \<and> wrongAnswers (session s evs) = upserts (wrongAnswers s) (session_misses s evs)
       \<and> distinct (map original_number (wrongAnswers (session s evs)))
       \<and> (\<forall>m \<in> set (session_misses s evs).
            entry_for (original_number m) (wrongAnswers (session s evs)) =
            Some (last (filter (\<lambda>x. original_number x = original_number m) (session_misses s evs))))"
proof -
  have a: "\<forall>i < length (wrongAnswers s). original_number (wrongAnswers s ! i) = number q \<longrightarrow>
            wrongAnswers (upsertWrongAnswer now q ua s) = (wrongAnswers s)[i := miss_record now q ua]"
    using assms by (simp add: upsertWrongAnswer_log upsert_present)
  have b: "number q \<notin> original_number ` set (wrongAnswers s) \<longrightarrow>
            wrongAnswers (upsertWrongAnswer now q ua s) = wrongAnswers s @ [miss_record now q ua]"
    by (simp add: upsertWrongAnswer_log upsert_absent)
  have c: "wrongAnswers (session s evs) = upserts (wrongAnswers s) (session_misses s evs)"
    by (rule session_log)
  have d: "distinct (map original_number (wrongAnswers (session s evs)))"
    unfolding c by (rule upserts_distinct [OF assms])
  have e: "\<forall>m \<in> set (session_misses s evs).
            entry_for (original_number m) (wrongAnswers (session s evs)) =
            Some (last (filter (\<lambda>x. original_number x = original_number m) (session_misses s evs)))"
    unfolding c by (auto simp: entry_for_upserts filter_empty_conv)
  from a b c d e show ?thesis by blast
qed

lemma submit_both_ticked:
  "map_of (answersState (submitAnswer now (both_ticked\<lparr>wrongAnswers := wl\<rparr>))) 0 =
     Some \<lparr>selected = [ascii ''A'', ascii ''B''], isCorrect = False,
           userAnswerShuffled = ascii ''AB'', userAnswerOriginal = ascii ''AB''\<rparr>"
  by (simp add: submitAnswer_def currentQuestion_def currentResult_def at_index_def
      both_ticked_def prepared_question_3 join_def sortLetters_def Let_def original_letter_def
      upsertWrongAnswer_def ascii_def)

theorem wrong_log_upsert_witness:
  "distinct (map original_number (wrongAnswers missed_before))
   \<and> wrongAnswers missed_before =
       [miss_record (ascii ''s'') (prepareQuestion (\<lambda>k. 0) question_3) (ascii ''A'')]
   \<and> session_misses missed_before [InRun (SubmitAnswer (ascii ''t''))] =
       [miss_record (ascii ''t'') (prepareQuestion (\<lambda>k. 0) question_3) (ascii ''AB'')]
   \<and> wrongAnswers (session missed_before [InRun (SubmitAnswer (ascii ''t''))]) =
       [miss_record (ascii ''t'') (prepareQuestion (\<lambda>k. 0) question_3) (ascii ''AB'')]"
proof -
  let ?p = "prepareQuestion (\<lambda>k. 0) question_3"
  have w: "wrongAnswers missed_before = [miss_record (ascii ''s'') ?p (ascii ''A'')]"
    by (simp add: missed_before_def)
  have d: "distinct (map original_number (wrongAnswers missed_before))" by (simp add: w)
  have q: "currentQuestion missed_before = Some ?p" "currentResult missed_before = None"
    "currentIndex missed_before = 0"
    by (simp_all add: missed_before_def both_ticked_def currentQuestion_def currentResult_def
        at_index_def)
  have r: "map_of (answersState (submitAnswer (ascii ''t'') missed_before)) 0 =
     Some \<lparr>selected = [ascii ''A'', ascii ''B''], isCorrect = False,
           userAnswerShuffled = ascii ''AB'', userAnswerOriginal = ascii ''AB''\<rparr>"
    unfolding missed_before_def by (rule submit_both_ticked)
  have m: "session_misses missed_before [InRun (SubmitAnswer (ascii ''t''))] =
       [miss_record (ascii ''t'') ?p (ascii ''AB'')]"
    by (simp add: q r)
  note t = wrong_log_upsert [OF d, of ?p "ascii ''t''" "ascii ''AB''"
      "[InRun (SubmitAnswer (ascii ''t''))]"]
  note c = t [THEN conjunct2, THEN conjunct2, THEN conjunct1]
  have "wrongAnswers (session missed_before [InRun (SubmitAnswer (ascii ''t''))]) =
      upserts [miss_record (ascii ''s'') ?p (ascii ''A'')] [miss_record (ascii ''t'') ?p (ascii ''AB'')]"
    using c unfolding m w .
  also have "\<dots> = [miss_record (ascii ''t'') ?p (ascii ''AB'')]"
    by (simp add: upserts_def upsert_def)
  finally show ?thesis using d w m by blast
qed

section \<open>Answer records are written once\<close>

text \<open>
  C6. An answer record is write-once within a run: once index \<open>i\<close> has a record,
  \<^verbatim>\<open>submitAnswer\<close> on that index returns the state unchanged, and whatever the user and
  the timer do in the run, index \<open>i\<close> keeps that same record.
\<close>

theorem answer_record_write_once:
  assumes "map_of (answersState s) i = Some r"
  shows "(currentIndex s = i \<longrightarrow> submitAnswer now s = s)
       \<and> map_of (answersState (run s acts)) i = Some r
       \<and> (currentIndex (run s acts) = i \<longrightarrow> submitAnswer now (run s acts) = run s acts)"
proof -
  have "\<And>t. map_of (answersState t) i = Some r \<Longrightarrow> currentIndex t = i \<Longrightarrow> submitAnswer now t = t"
    by (rule submitAnswer_answered [of _ r]) (simp add: currentResult_def)
  then show ?thesis using assms run_keeps_record [OF assms] by blast
qed

theorem answer_record_write_once_witness:
  "map_of (answersState answered_wrong) 0 =
     Some \<lparr>selected = [ascii ''A'', ascii ''B''], isCorrect = False,
           userAnswerShuffled = ascii ''AB'', userAnswerOriginal = ascii ''BC''\<rparr>
   \<and> currentIndex answered_wrong = 0
   \<and> submitAnswer (ascii ''t'') answered_wrong = answered_wrong
   \<and> map_of (answersState (run answered_wrong
        [ChangeOption (ascii ''C'') True, SubmitAnswer (ascii ''t''), NextQuestion,
         SubmitAnswer (ascii ''u'')])) 0 =
     Some \<lparr>selected = [ascii ''A'', ascii ''B''], isCorrect = False,
           userAnswerShuffled = ascii ''AB'', userAnswerOriginal = ascii ''BC''\<rparr>"
proof -
  have a: "map_of (answersState answered_wrong) 0 =
     Some \<lparr>selected = [ascii ''A'', ascii ''B''], isCorrect = False,
           userAnswerShuffled = ascii ''AB'', userAnswerOriginal = ascii ''BC''\<rparr>"
    by (simp add: answered_wrong_def)
  have i: "currentIndex answered_wrong = 0"
    by (simp add: answered_wrong_def one_ticked_def)
  from answer_record_write_once [OF a, of "ascii ''t''"
      "[ChangeOption (ascii ''C'') True, SubmitAnswer (ascii ''t''), NextQuestion,
        SubmitAnswer (ascii ''u'')]"] a i
  show ?thesis by simp
qed

section \<open>The scenario of one question\<close>

text \<open>
  C7. Parsing the blocks \<^verbatim>\<open>1. What is 2+2?\<close>, \<^verbatim>\<open>A. 3\<close>, \<^verbatim>\<open>B. 4\<close>,
  \<^verbatim>\<open>Answer: B\<close> yields exactly one question, with number 1, text
  \<^verbatim>\<open>What is 2+2?\<close>, options A: 3 and B: 4, and answer B; prepared with any random
  source, the question is not multiple-choice.
\<close>

theorem scenario_single_question:
  "parseQuestionsFromHtml
     [text_block ''1. What is 2+2?'', text_block ''A. 3'', text_block ''B. 4'', text_block ''Answer: B''] =
     [\<lparr>number = 1, qtext = ascii ''What is 2+2?'',
       options = [(ascii ''A'', ascii ''3''), (ascii ''B'', ascii ''4'')],
       answer = ascii ''B'', images = []\<rparr>]
   \<and> map (\<lambda>q. isMultipleChoice (prepareQuestion rnd q))
       (parseQuestionsFromHtml
          [text_block ''1. What is 2+2?'', text_block ''A. 3'', text_block ''B. 4'',
           text_block ''Answer: B'']) = [False]"
  using parse_sample_bank
  by (simp add: sample_bank_def prepareQuestion_fields) (simp add: question_1_def ascii_def)


section \<open>Random selection\<close>

lemma slice_from_0: "0 \<le> c \<Longrightarrow> slice xs 0 c = take (nat \<lfloor>c\<rfloor>) xs"
  by (simp add: slice_def slice_index_def trunc_def min_def)

lemma clamp_or_one: "clamp (or_one n) 1 m = clamp n 1 m"
  by (simp add: clamp_def or_one_def)

lemma random_run_originals:
  assumes "questions s \<noteq> []" "mode (quizSettings s) = Random"
  shows "map original (quizQuestions (startQuiz rnd s)) =
           take (nat \<lfloor>clamp (numQuestions (quizSettings s)) 1 (real (length (questions s)))\<rfloor>)
                (shuffleArray rnd (questions s))"
proof -
  have "1 \<le> real (length (questions s))" using assms(1) by (cases "questions s") simp_all
  then have "0 \<le> clamp (numQuestions (quizSettings s)) 1 (real (length (questions s)))"
    by (simp add: clamp_def)
  then show ?thesis
    by (simp add: startQuiz_run [OF assms(1)] assms(2) original_map_prepareQuestion
        selectRandom_def sampleQuestions_def clamp_or_one slice_from_0)
qed

lemma typed_two_and_a_half_state:
  "questions typed_two_and_a_half = [question_1, question_2, question_3]"
  "quizSettings typed_two_and_a_half = \<lparr>mode = Random, numQuestions = 5 / 2, startQuestion = 1\<rparr>"
  by (simp_all add: typed_two_and_a_half_def updateNumQuestions_def loaded_def Let_def
      clamp_def or_one_def)

lemma shuffle_three_half:
  "shuffleArray (\<lambda>k. 1 / 2) [a, b, c] = [a, c, b]"
  by (simp add: shuffleArray_def random_index_def advance_def numeral_3_eq_3)

text \<open>
  C8 as the specification states it gives the run exactly clamp(numQuestions, 1, number of
  questions) elements. With 2.5 typed on a bank of three questions the clamp is 2.5 and
  \<^verbatim>\<open>slice(0, 2.5)\<close> takes two questions.
\<close>

theorem fractional_count_random:
  "questions typed_two_and_a_half = [question_1, question_2, question_3]
   \<and> mode (quizSettings typed_two_and_a_half) = Random
   \<and> numQuestions (quizSettings typed_two_and_a_half) = 5 / 2
   \<and> map original (quizQuestions (startQuiz (\<lambda>k. 1 / 2) typed_two_and_a_half)) =
       [question_1, question_3]
   \<and> real (length (quizQuestions (startQuiz (\<lambda>k. 1 / 2) typed_two_and_a_half))) \<noteq>
       clamp (numQuestions (quizSettings typed_two_and_a_half)) 1
         (real (length (questions typed_two_and_a_half)))"
proof -
  let ?s = typed_two_and_a_half
  note st = typed_two_and_a_half_state
  have ne: "questions ?s \<noteq> []" by (simp add: st)
  have m: "mode (quizSettings ?s) = Random" by (simp add: st)
  have o: "map original (quizQuestions (startQuiz (\<lambda>k. 1 / 2) ?s)) = [question_1, question_3]"
    by (simp add: random_run_originals [OF ne m] st shuffle_three_half clamp_def)
  then have "length (map original (quizQuestions (startQuiz (\<lambda>k. 1 / 2) ?s))) = 2" by simp
  then have l: "length (quizQuestions (startQuiz (\<lambda>k. 1 / 2) ?s)) = 2" by simp
  have n: "real (length (quizQuestions (startQuiz (\<lambda>k. 1 / 2) ?s))) \<noteq>
       clamp (numQuestions (quizSettings ?s)) 1 (real (length (questions ?s)))"
    unfolding l by (simp add: st clamp_def)
  from o n show ?thesis by (simp add: st)
qed

text \<open>
  C8, amended. In random mode, for every non-empty bank and every sequence of draws in
  \<open>[0, 1)\<close>: the shuffled list is a permutation of the bank, and the run that
  \<^verbatim>\<open>startQuiz\<close> stores is the preparation of its prefix of exactly
  floor(clamp(numQuestions, 1, number of questions)) elements, which is that clamp itself
  when numQuestions is an integer; so every selected question comes from the bank and none
  is selected more often than the bank holds it.
\<close>

theorem random_run:
  fixes s :: app_state and rnd :: random_source
  defines "qs \<equiv> questions s" and "st \<equiv> quizSettings s"
  defines "sel \<equiv> map original (quizQuestions (startQuiz rnd s))"
  assumes "questions s \<noteq> []" "mode (quizSettings s) = Random" "unit_interval rnd"
  shows "mset (shuffleArray rnd qs) = mset qs
       \<and> quizQuestions (startQuiz rnd s) = map_prepareQuestion (advance (length qs - 1) rnd) sel
       \<and> sel = selectRandom rnd st qs
       \<and> sel = take (length sel) (shuffleArray rnd qs)
       \<and> int (length sel) = \<lfloor>clamp (numQuestions st) 1 (real (length qs))\<rfloor>
       \<and> (numQuestions st \<in> \<int> \<longrightarrow>
            real (length sel) = clamp (numQuestions st) 1 (real (length qs)))
       \<and> mset sel \<subseteq># mset qs
       \<and> set sel \<subseteq> set qs"
proof -
  let ?c = "clamp (numQuestions st) 1 (real (length qs))"
  have len: "1 \<le> real (length qs)" using assms(4) by (cases "questions s") (simp_all add: qs_def)
  then have c: "1 \<le> ?c" "?c \<le> real (length qs)" by (simp_all add: clamp_def)
  have fc: "1 \<le> \<lfloor>?c\<rfloor>" using c(1) by (simp add: le_floor_iff)
  have "?c \<le> real_of_int (int (length qs))" using c(2) by simp
  then have "\<lfloor>?c\<rfloor> \<le> \<lfloor>real_of_int (int (length qs))\<rfloor>" by (rule floor_mono)
  then have fl: "\<lfloor>?c\<rfloor> \<le> int (length qs)" by (simp only: floor_of_int)
  have p: "mset (shuffleArray rnd qs) = mset qs" by (rule shuffleArray_mset [OF assms(6)])
  have pq: "quizQuestions (startQuiz rnd s) =
      map_prepareQuestion (advance (length qs - 1) rnd) (selectRandom rnd st qs)"
    using startQuiz_run [OF assms(4), of rnd] assms(5) by (simp add: st_def qs_def)
  have ss: "sel = selectRandom rnd st qs"
    unfolding sel_def pq by (rule original_map_prepareQuestion)
  have s: "sel = take (nat \<lfloor>?c\<rfloor>) (shuffleArray rnd qs)"
    unfolding sel_def qs_def st_def by (rule random_run_originals [OF assms(4,5)])
  have k: "nat \<lfloor>?c\<rfloor> \<le> length (shuffleArray rnd qs)"
    using fl fc by (simp add: shuffleArray_length [OF assms(6)])
  have l: "length sel = nat \<lfloor>?c\<rfloor>" using k by (simp add: s min_absorb2)
  have d: "sel = take (length sel) (shuffleArray rnd qs)" using s l by simp
  have e: "int (length sel) = \<lfloor>?c\<rfloor>" using l fc by simp
  have e': "numQuestions st \<in> \<int> \<longrightarrow> real (length sel) = ?c"
  proof
    assume z: "numQuestions st \<in> \<int>"
    have "real (length qs) \<in> \<int>" by simp
    then have "?c \<in> \<int>" using z by (simp add: clamp_def min_def max_def)
    then have "real_of_int \<lfloor>?c\<rfloor> = ?c" by (rule of_int_floor)
    moreover have "real (length sel) = real_of_int (int (length sel))" by simp
    ultimately show "real (length sel) = ?c" by (simp only: e)
  qed
  have "mset (take (nat \<lfloor>?c\<rfloor>) (shuffleArray rnd qs)) \<subseteq># mset (shuffleArray rnd qs)"
    by (metis append_take_drop_id mset_append mset_subset_eq_add_left)
  then have m: "mset sel \<subseteq># mset qs" by (simp add: s p)
  then have m': "set sel \<subseteq> set qs" by (metis set_mset_mono set_mset_mset)
  have pq': "quizQuestions (startQuiz rnd s) = map_prepareQuestion (advance (length qs - 1) rnd) sel"
    using pq ss by simp
  from p pq' ss d e e' m m' show ?thesis by blast
qed

theorem random_run_witness:
  "questions (loaded [question_1, question_2, question_3] pick_two) \<noteq> []
   \<and> mode (quizSettings (loaded [question_1, question_2, question_3] pick_two)) = Random
   \<and> unit_interval (\<lambda>k. 1 / 2)
   \<and> shuffleArray (\<lambda>k. 1 / 2) [question_1, question_2, question_3] = [question_1, question_3, question_2]
   \<and> map original (quizQuestions (startQuiz (\<lambda>k. 1 / 2)
        (loaded [question_1, question_2, question_3] pick_two))) = [question_1, question_3]
   \<and> mset [question_1, question_3] \<subseteq># mset [question_1, question_2, question_3]"
proof -
  let ?qs = "[question_1, question_2, question_3]"
  let ?s = "loaded ?qs pick_two"
  let ?sel = "map original (quizQuestions (startQuiz (\<lambda>k. 1 / 2) ?s))"
  have q: "questions ?s = ?qs" "quizSettings ?s = pick_two" by (simp_all add: loaded_def)
  have ne: "questions ?s \<noteq> []" by (simp add: loaded_def)
  have md: "mode (quizSettings ?s) = Random" by (simp add: loaded_def pick_two_def)
  have u: "unit_interval (\<lambda>k. 1 / 2)" by (simp add: unit_interval_def)
  have sh: "shuffleArray (\<lambda>k. 1 / 2) ?qs = [question_1, question_3, question_2]"
    by (rule shuffle_three_half)
  note t = random_run [OF ne md u, unfolded q sh]
  note d = t [THEN conjunct2, THEN conjunct2, THEN conjunct2, THEN conjunct1]
  note e = t [THEN conjunct2, THEN conjunct2, THEN conjunct2, THEN conjunct2, THEN conjunct1]
  note m = t [THEN conjunct2, THEN conjunct2, THEN conjunct2, THEN conjunct2, THEN conjunct2,
      THEN conjunct2, THEN conjunct1]
  from e have l: "length ?sel = 2" by (simp add: pick_two_def clamp_def)
  from d have sel: "?sel = [question_1, question_3]" unfolding l by simp
  from m have "mset [question_1, question_3] \<subseteq># mset ?qs" unfolding sel .
  with ne md u sh sel show ?thesis by blast
qed

section \<open>Answer letters without an option\<close>

lemma assign_letters_rm:
  "(k, v) \<in> set (snd (snd (assign_letters L i items (so, om, rm)))) \<Longrightarrow>
     ((k, v) \<in> set rm \<or> (k \<in> fst ` set items \<and> (v = None \<or> (\<exists>l \<in> set L. v = Some l))))"
proof (induction items arbitrary: i so om rm)
  case Nil
  then show ?case by simp
next
  case (Cons it items)
  obtain orig otext where it: "it = (orig, otext)" by (cases it)
  let ?v = "at_index L i"
  have v: "?v = None \<or> (\<exists>l \<in> set L. ?v = Some l)" by (simp add: at_index_def)
  from Cons.prems have "(k, v) \<in> set (snd (snd (assign_letters L (Suc i) items
      (AList.update (property_key ?v) otext so, AList.update (property_key ?v) orig om,
       AList.update orig ?v rm))))"
    by (simp add: it Let_def)
  from Cons.IH [OF this]
  have "(k, v) \<in> set (AList.update orig ?v rm) \<or>
        (k \<in> fst ` set items \<and> (v = None \<or> (\<exists>l \<in> set L. v = Some l)))" .
  moreover have "set (AList.update orig ?v rm) \<subseteq> insert (orig, ?v) (set rm)"
    by (induction rm) auto
  ultimately show ?case using v it by auto
qed

lemma assign_letters_so_keys:
  "k \<in> fst ` set (fst (assign_letters L i items (so, om, rm))) \<Longrightarrow>
     \<forall>l \<in> set L. l \<noteq> [] \<Longrightarrow> k \<in> fst ` set so \<or> k \<noteq> []"
proof (induction items arbitrary: i so om rm)
  case Nil
  then show ?case by simp
next
  case (Cons it items)
  obtain orig otext where it: "it = (orig, otext)" by (cases it)
  let ?v = "at_index L i"
  have v: "property_key ?v \<noteq> []"
    using Cons.prems(2) by (auto simp: at_index_def property_key_def ascii_def)
  from Cons.prems(1) have "k \<in> fst ` set (fst (assign_letters L (Suc i) items
      (AList.update (property_key ?v) otext so, AList.update (property_key ?v) orig om,
       AList.update orig ?v rm)))"
    by (simp add: it Let_def)
  from Cons.IH [OF this Cons.prems(2)]
  have "k \<in> fst ` set (AList.update (property_key ?v) otext so) \<or> k \<noteq> []" .
  then show ?case using v by (auto simp: dom_update)
qed

lemma length_join_sortLetters: "length (join (sortLetters xs)) = sum_list (map length xs)"
proof -
  have "mset (map length (sort xs)) = mset (map length xs)" by simp
  then have "sum_list (map length (sort xs)) = sum_list (map length xs)"
    by (metis sum_mset_sum_list)
  then show ?thesis by (simp add: join_def sortLetters_def length_concat)
qed

lemma sum_length_filter_Boolean:
  "\<forall>v \<in> set vs. v = None \<or> (\<exists>l. v = Some l \<and> length l \<le> 1) \<Longrightarrow>
     sum_list (map length (filter_Boolean vs)) \<le> length vs \<and>
     (None \<in> set vs \<longrightarrow> sum_list (map length (filter_Boolean vs)) < length vs)"
proof (induction vs rule: filter_Boolean.induct)
  case 1
  then show ?case by simp
next
  case (2 vs)
  then show ?case by auto
next
  case (3 v vs)
  then show ?case by auto
qed

lemma shuffledAnswer_shorter:
  assumes "\<exists>c \<in> set (answer q). [c] \<notin> fst ` set (options q)" "unit_interval rnd"
  shows "length (shuffledAnswer (prepareQuestion rnd q)) < length (answer q)"
proof -
  let ?sh = "shuffleArray rnd (options q)"
  let ?L = "take (length ?sh) LETTERS"
  obtain so om rm where a: "assign_letters ?L 0 ?sh ([], [], []) = (so, om, rm)"
    by (cases "assign_letters ?L 0 ?sh ([], [], [])") auto
  have keys: "set ?sh = set (options q)"
    using shuffleArray_mset [OF assms(2), of "options q"] by (metis mset_eq_setD)
  have rm: "\<And>k v. (k, v) \<in> set rm \<Longrightarrow>
      k \<in> fst ` set (options q) \<and> (v = None \<or> (\<exists>l \<in> set LETTERS. v = Some l))"
  proof -
    fix k v assume "(k, v) \<in> set rm"
    then have "(k, v) \<in> set (snd (snd (assign_letters ?L 0 ?sh ([], [], []))))" by (simp add: a)
    from assign_letters_rm [OF this] show "k \<in> fst ` set (options q) \<and> (v = None \<or> (\<exists>l \<in> set LETTERS. v = Some l))"
      using keys by (auto dest: in_set_takeD)
  qed
  let ?vs = "map (\<lambda>letter. get_property rm letter) (split_chars (answer q))"
  have vals: "\<forall>v \<in> set ?vs. v = None \<or> (\<exists>l. v = Some l \<and> length l \<le> 1)"
  proof
    fix v assume "v \<in> set ?vs"
    then obtain k where v: "v = get_property rm k" by auto
    show "v = None \<or> (\<exists>l. v = Some l \<and> length l \<le> 1)"
    proof (cases "map_of rm k")
      case None
      then show ?thesis by (simp add: v get_property_def)
    next
      case (Some w)
      then have "(k, w) \<in> set rm" by (rule map_of_SomeD)
      from rm [OF this] have "w = None \<or> (\<exists>l \<in> set LETTERS. w = Some l)" by simp
      then show ?thesis using Some by (auto simp: v get_property_def LETTERS_def ascii_def)
    qed
  qed
  from assms(1) obtain c where c: "c \<in> set (answer q)" "[c] \<notin> fst ` set (options q)" by blast
  have "map_of rm [c] = None"
  proof (cases "map_of rm [c]")
    case (Some w)
    then have "([c], w) \<in> set rm" by (rule map_of_SomeD)
    from rm [OF this] c(2) show ?thesis by simp
  qed simp
  then have "get_property rm [c] = None" by (simp add: get_property_def)
  then have n: "None \<in> set ?vs" using c(1) by (force simp: split_chars_def)
  from sum_length_filter_Boolean [OF vals] n
  have "sum_list (map length (filter_Boolean ?vs)) < length ?vs" by blast
  then have "length (join (sortLetters (filter_Boolean ?vs))) < length (answer q)"
    by (simp add: length_join_sortLetters split_chars_def)
  then show ?thesis by (simp add: prepareQuestion_def Let_def a)
qed

lemma shuffledOptions_keys_nonempty:
  "k \<in> fst ` set (shuffledOptions (prepareQuestion rnd q)) \<Longrightarrow> k \<noteq> []"
proof -
  let ?sh = "shuffleArray rnd (options q)"
  let ?L = "take (length ?sh) LETTERS"
  assume k: "k \<in> fst ` set (shuffledOptions (prepareQuestion rnd q))"
  obtain so om rm where a: "assign_letters ?L 0 ?sh ([], [], []) = (so, om, rm)"
    by (cases "assign_letters ?L 0 ?sh ([], [], [])") auto
  from k have "k \<in> fst ` set (fst (assign_letters ?L 0 ?sh ([], [], [])))"
    by (simp add: prepareQuestion_def Let_def a)
  moreover have "\<forall>l \<in> set ?L. l \<noteq> []"
    using LETTERS_props(3) by (auto dest: in_set_takeD)
  ultimately have "k \<in> fst ` set ([] :: jsstring jsobject) \<or> k \<noteq> []"
    by (rule assign_letters_so_keys)
  then show ?thesis by simp
qed

lemma submitAnswer_record:
  assumes "currentQuestion s = Some p" "currentResult s = None"
    "currentResult (submitAnswer now s) = Some r"
  shows "isCorrect r = (join (sortLetters (draft s)) = shuffledAnswer p)
       \<and> draft s \<noteq> [] \<and> (isMultipleChoice p \<longrightarrow> length (draft s) = length (answer p))"
proof (cases "draft s = [] \<or> (isMultipleChoice p \<and> length (draft s) \<noteq> length (answer p))")
  case True
  have "currentResult (submitAnswer now s) = None"
    unfolding submitAnswer_rejected [OF assms(1,2) True]
    using assms(2) by (simp add: currentResult_def)
  then show ?thesis using assms(3) by simp
next
  case False
  have "map_of (answersState (submitAnswer now s)) (currentIndex s) =
      Some \<lparr>selected = sortLetters (draft s),
            isCorrect = (join (sortLetters (draft s)) = shuffledAnswer p),
            userAnswerShuffled = join (sortLetters (draft s)),
            userAnswerOriginal = join (sortLetters (map (original_letter (optionMapping p)) (sortLetters (draft s))))\<rparr>
      \<and> currentIndex (submitAnswer now s) = currentIndex s"
    using assms(1,2) False
    unfolding submitAnswer_def draft_def [symmetric]
    by (auto simp: Let_def update_conv' upsertWrongAnswer_def)
  then show ?thesis using assms(3) False by (auto simp: currentResult_def)
qed


lemma submitAnswer_accepted:
  assumes "currentQuestion s = Some p" "currentResult s = None" "draft s \<noteq> []"
    "isMultipleChoice p \<longrightarrow> length (draft s) = length (answer p)"
  shows "currentResult (submitAnswer now s) \<noteq> None"
  using assms unfolding submitAnswer_def draft_def [symmetric]
  by (auto simp: Let_def update_conv' upsertWrongAnswer_def currentResult_def)

lemma length_join_ge:
  "\<forall>x \<in> set xs. x \<noteq> [] \<Longrightarrow> length xs \<le> length (join xs)"
proof (induction xs)
  case Nil
  then show ?case by simp
next
  case (Cons a xs)
  then have "1 \<le> length a" "length xs \<le> length (join xs)"
    by (simp_all add: Suc_le_eq)
  then have "Suc (length xs) \<le> length a + length (join xs)" by linarith
  then show ?case by (simp add: join_def)
qed

text \<open>
  C9. Preparation drops the answer letters that are not option keys. For every question
  whose answer is longer than one letter and has a letter that is not among its option
  keys, prepared with draws in \<open>[0, 1)\<close>: \<^verbatim>\<open>shuffledAnswer\<close> is strictly shorter than
  the answer, and whenever \<^verbatim>\<open>submitAnswer\<close> records an answer for it, on a selection
  of letters that the page offers, the record is marked incorrect.
\<close>

theorem stray_answer_letter_never_correct:
  assumes "1 < length (answer q)" "\<exists>c \<in> set (answer q). [c] \<notin> fst ` set (options q)"
    "unit_interval rnd"
  defines "p \<equiv> prepareQuestion rnd q"
  shows "length (shuffledAnswer p) < length (answer q)
       \<and> (\<forall>s now r. currentQuestion s = Some p \<and> currentResult s = None \<and>
             set (draft s) \<subseteq> fst ` set (shuffledOptions p) \<and>
             currentResult (submitAnswer now s) = Some r \<longrightarrow> \<not> isCorrect r)"
proof -
  have short: "length (shuffledAnswer p) < length (answer q)"
    unfolding p_def by (rule shuffledAnswer_shorter [OF assms(2,3)])
  have multi: "isMultipleChoice p" "answer p = answer q"
    using assms(1) by (simp_all add: p_def prepareQuestion_fields)
  have "\<And>s now r. currentQuestion s = Some p \<Longrightarrow> currentResult s = None \<Longrightarrow>
             set (draft s) \<subseteq> fst ` set (shuffledOptions p) \<Longrightarrow>
             currentResult (submitAnswer now s) = Some r \<Longrightarrow> \<not> isCorrect r"
  proof -
    fix s now r
    assume h: "currentQuestion s = Some p" "currentResult s = None"
      "set (draft s) \<subseteq> fst ` set (shuffledOptions p)"
      "currentResult (submitAnswer now s) = Some r"
    from submitAnswer_record [OF h(1,2,4)] multi
    have r: "isCorrect r = (join (sortLetters (draft s)) = shuffledAnswer p)"
      and l: "length (draft s) = length (answer q)" by simp_all
    have "\<forall>x \<in> set (sortLetters (draft s)). x \<noteq> []"
      using h(3) shuffledOptions_keys_nonempty [of _ rnd q]
      by (auto simp: sortLetters_def p_def)
    then have "length (sortLetters (draft s)) \<le> length (join (sortLetters (draft s)))"
      by (rule length_join_ge)
    then have "length (answer q) \<le> length (join (sortLetters (draft s)))" using l by simp
    then have "join (sortLetters (draft s)) \<noteq> shuffledAnswer p" using short by auto
    then show "\<not> isCorrect r" using r by simp
  qed
  with short show ?thesis by blast
qed

theorem stray_answer_letter_never_correct_witness:
  "1 < length (answer question_3)
   \<and> 69 \<in> set (answer question_3) \<and> [69] \<notin> fst ` set (options question_3)
   \<and> unit_interval (\<lambda>k. 0)
   \<and> shuffledAnswer (prepareQuestion (\<lambda>k. 0) question_3) = ascii ''B''
   \<and> currentQuestion both_ticked = Some (prepareQuestion (\<lambda>k. 0) question_3)
   \<and> currentResult both_ticked = None
   \<and> draft both_ticked = [ascii ''A'', ascii ''B'']
   \<and> (\<exists>r. currentResult (submitAnswer (ascii ''t'') both_ticked) = Some r \<and> \<not> isCorrect r)"
proof -
  let ?p = "prepareQuestion (\<lambda>k. 0) question_3"
  have a: "1 < length (answer question_3)" by (simp add: question_3_def ascii_def)
  have b: "69 \<in> set (answer question_3)" "[69] \<notin> fst ` set (options question_3)"
    by (simp_all add: question_3_def ascii_def)
  then have b': "\<exists>c \<in> set (answer question_3). [c] \<notin> fst ` set (options question_3)" by blast
  have u: "unit_interval (\<lambda>k. 0)" by (simp add: unit_interval_def)
  have sa: "shuffledAnswer ?p = ascii ''B''" by (simp add: prepared_question_3)
  have q: "currentQuestion both_ticked = Some ?p"
    by (simp add: currentQuestion_def at_index_def both_ticked_def)
  have r: "currentResult both_ticked = None" by (simp add: currentResult_def both_ticked_def)
  have d: "draft both_ticked = [ascii ''A'', ascii ''B'']" by (simp add: draft_def both_ticked_def)
  have k: "set (draft both_ticked) \<subseteq> fst ` set (shuffledOptions ?p)"
    by (simp add: d prepared_question_3)
  have "currentResult (submitAnswer (ascii ''t'') both_ticked) \<noteq> None"
    by (rule submitAnswer_accepted [OF q r]) (simp_all add: d prepareQuestion_fields question_3_def ascii_def)
  then obtain r0 where r0: "currentResult (submitAnswer (ascii ''t'') both_ticked) = Some r0" by blast
  from stray_answer_letter_never_correct [OF a b' u] q r k r0 have "\<not> isCorrect r0" by blast
  with a b u sa q r d r0 show ?thesis by blast
qed

section \<open>The score\<close>







end
